theory Spec2Isabelle
  imports Complex_Main
begin

section \<open>Data model (src/models.py)\<close>

text \<open>
  The session states of \<^verbatim>\<open>class SessionState(Enum)\<close>, with the string each member
  carries as its \<^verbatim>\<open>.value\<close>.
\<close>

datatype SessionState =
  IDLE | USER_WRITING | USER_COMMITTED | AI_GENERATING | AI_COMMITTED | ERROR | TIMEOUT

fun state_value :: "SessionState \<Rightarrow> string" where
  "state_value IDLE = ''idle''"
| "state_value USER_WRITING = ''user_writing''"
| "state_value USER_COMMITTED = ''user_committed''"
| "state_value AI_GENERATING = ''ai_generating''"
| "state_value AI_COMMITTED = ''ai_committed''"
| "state_value ERROR = ''error''"
| "state_value TIMEOUT = ''timeout''"

text \<open>The dictionary \<^verbatim>\<open>VALID_TRANSITIONS\<close>; every state is a key of it.\<close>

fun VALID_TRANSITIONS :: "SessionState \<Rightarrow> SessionState list" where
  "VALID_TRANSITIONS IDLE = [USER_WRITING, TIMEOUT]"
| "VALID_TRANSITIONS USER_WRITING = [USER_COMMITTED, ERROR]"
| "VALID_TRANSITIONS USER_COMMITTED = [AI_GENERATING, ERROR]"
| "VALID_TRANSITIONS AI_GENERATING = [AI_COMMITTED, ERROR]"
| "VALID_TRANSITIONS AI_COMMITTED = [IDLE]"
| "VALID_TRANSITIONS ERROR = [IDLE]"
| "VALID_TRANSITIONS TIMEOUT = [IDLE]"

text \<open>
  Timestamps (\<^verbatim>\<open>datetime.utcnow()\<close>) are readings of a clock; the model takes each
  reading as an argument of the operation that makes it. Identifiers made by
  \<^verbatim>\<open>uuid.uuid4()\<close> are arguments in the same way.
\<close>

type_synonym datetime = nat

record Message =
  id_message :: string
  role :: string
  content :: string
  timestamp :: datetime

record Session =
  id_session :: string
  user_id :: string
  state :: SessionState
  messages :: "Message list"
  created_at :: datetime
  updated_at :: datetime
  error_message :: "string option"
  retry_count :: int

record StreamEvent =
  event_type :: string
  data :: string

text \<open>Every exception the modelled code raises is a \<^verbatim>\<open>ValueError\<close> with a message.\<close>

datatype error = ValueError string

fun str_error :: "error \<Rightarrow> string" where
  "str_error (ValueError m) = m"

text \<open>
  \<^verbatim>\<open>str\<close> of a list of strings, as the f-string of \<^verbatim>\<open>update_state\<close> prints the
  allowed targets: each element in single quotes, separated by a comma and a space.
\<close>

definition quote :: char where
  "quote = CHR 0x27"

fun join_str :: "string \<Rightarrow> string list \<Rightarrow> string" where
  "join_str sep [] = []"
| "join_str sep [x] = x"
| "join_str sep (x # y # ys) = x @ sep @ join_str sep (y # ys)"

definition repr_str :: "string \<Rightarrow> string" where
  "repr_str s = quote # s @ [quote]"

definition str_list :: "string list \<Rightarrow> string" where
  "str_list xs = ''['' @ join_str '', '' (map repr_str xs) @ '']''"

text \<open>Python truthiness of an \<^verbatim>\<open>Optional[str]\<close>: neither \<^verbatim>\<open>None\<close> nor empty.\<close>

fun truthy :: "string option \<Rightarrow> bool" where
  "truthy None = False"
| "truthy (Some s) = (s \<noteq> [])"

definition add_message :: "Session \<Rightarrow> Message \<Rightarrow> datetime \<Rightarrow> Session" where
  "add_message s m now = s\<lparr>messages := messages s @ [m], updated_at := now\<rparr>"

definition invalid_transition_msg :: "SessionState \<Rightarrow> SessionState \<Rightarrow> string" where
  "invalid_transition_msg cur new_state =
     ''Invalid state transition: '' @ state_value cur @ '' -> '' @ state_value new_state @
     ''. Valid transitions: '' @ str_list (map state_value (VALID_TRANSITIONS cur))"

text \<open>
  \<^verbatim>\<open>Session.update_state\<close>: the transition is validated first; a rejected one raises
  before the session is touched.
\<close>

definition update_state ::
  "Session \<Rightarrow> SessionState \<Rightarrow> string option \<Rightarrow> datetime \<Rightarrow> error + Session" where
  "update_state s new_state error_msg now =
     (let valid_next_states = VALID_TRANSITIONS (state s) in
      if new_state \<notin> set valid_next_states
      then Inl (ValueError (invalid_transition_msg (state s) new_state))
      else
        (let s1 = s\<lparr>state := new_state, updated_at := now\<rparr> in
         if truthy error_msg then Inr (s1\<lparr>error_message := error_msg\<rparr>)
         else if new_state \<noteq> ERROR then Inr (s1\<lparr>error_message := None\<rparr>)
         else Inr s1))"

section \<open>The in-memory store (src/database.py)\<close>

text \<open>
  \<^verbatim>\<open>InMemoryDatabase\<close> is a dictionary from session id to session. The model adds a
  log of what an observer of the store sees: the state of the session written by each
  \<^verbatim>\<open>create_session\<close> and \<^verbatim>\<open>update_session\<close>, in order. No operation reads the log.

  Python shares the session object between the store and the caller. Every operation
  below raises only before its first mutation of the session and writes the session
  back after each change of state, so the store of the model holds what the shared
  object holds whenever an operation returns or raises.
\<close>

record database =
  sessions :: "string \<rightharpoonup> Session"
  observed :: "(string \<times> SessionState) list"

definition get_session :: "database \<Rightarrow> string \<Rightarrow> Session option" where
  "get_session d session_id = sessions d session_id"

definition create_session :: "database \<Rightarrow> Session \<Rightarrow> error + database" where
  "create_session d s =
     (if id_session s \<in> dom (sessions d)
      then Inl (ValueError (''Session '' @ id_session s @ '' already exists''))
      else Inr (d\<lparr>sessions := (sessions d)(id_session s \<mapsto> s),
                  observed := observed d @ [(id_session s, state s)]\<rparr>))"

definition update_session :: "database \<Rightarrow> Session \<Rightarrow> error + database" where
  "update_session d s =
     (if id_session s \<notin> dom (sessions d)
      then Inl (ValueError (''Session '' @ id_session s @ '' not found''))
      else Inr (d\<lparr>sessions := (sessions d)(id_session s \<mapsto> s),
                  observed := observed d @ [(id_session s, state s)]\<rparr>))"

definition delete_session :: "database \<Rightarrow> string \<Rightarrow> database" where
  "delete_session d session_id =
     (if session_id \<in> dom (sessions d)
      then d\<lparr>sessions := (sessions d)(session_id := None)\<rparr>
      else d)"

section \<open>The broker (src/broker.py)\<close>

text \<open>
  \<^verbatim>\<open>InMemoryBroker\<close>: the work queue of session ids (a FIFO) and one event queue for
  each session id, created when first used. Both kinds of queue are unbounded, so
  putting into them never blocks and never raises. The model adds a log of the
  publications, as it does for the writes of the store: \<^verbatim>\<open>send_event\<close> appends the
  session id and the event to \<open>sent\<close>, and no operation reads the log. A queue can
  lose events to a reader or be released; the log keeps what has been published.
\<close>

record broker =
  work_queue :: "string list"
  session_queues :: "string \<rightharpoonup> StreamEvent list"
  sent :: "(string \<times> StreamEvent) list"

definition enqueue_session :: "broker \<Rightarrow> string \<Rightarrow> broker" where
  "enqueue_session b session_id = b\<lparr>work_queue := work_queue b @ [session_id]\<rparr>"

definition send_event :: "broker \<Rightarrow> string \<Rightarrow> StreamEvent \<Rightarrow> broker" where
  "send_event b session_id event =
     (let b1 = (if session_id \<notin> dom (session_queues b)
                then b\<lparr>session_queues := (session_queues b)(session_id \<mapsto> [])\<rparr>
                else b)
      in case session_queues b1 session_id of
           None \<Rightarrow> b1
         | Some q \<Rightarrow> b1\<lparr>session_queues := (session_queues b1)(session_id \<mapsto> q @ [event]),
                         sent := sent b1 @ [(session_id, event)]\<rparr>)"

definition get_session_events :: "broker \<Rightarrow> string \<Rightarrow> broker \<times> StreamEvent list" where
  "get_session_events b session_id =
     (let b1 = (if session_id \<notin> dom (session_queues b)
                then b\<lparr>session_queues := (session_queues b)(session_id \<mapsto> [])\<rparr>
                else b)
      in (b1, case session_queues b1 session_id of None \<Rightarrow> [] | Some q \<Rightarrow> q))"

definition cleanup_session_queue :: "broker \<Rightarrow> string \<Rightarrow> broker" where
  "cleanup_session_queue b session_id =
     (if session_id \<in> dom (session_queues b)
      then b\<lparr>session_queues := (session_queues b)(session_id := None)\<rparr>
      else b)"

text \<open>
  The reader of a queue (the stream relay of src/main.py, \<^verbatim>\<open>event_queue.get()\<close>) takes
  the oldest event out of it; on an empty queue it waits, which leaves the queue as it
  is.
\<close>

definition take_event :: "broker \<Rightarrow> string \<Rightarrow> broker" where
  "take_event b session_id =
     (case session_queues b session_id of
        None \<Rightarrow> b
      | Some [] \<Rightarrow> b
      | Some (e # q) \<Rightarrow> b\<lparr>session_queues := (session_queues b)(session_id \<mapsto> q)\<rparr>)"

section \<open>The state machine (src/fsm.py)\<close>

record world =
  db :: database
  brk :: broker

definition not_found_msg :: "string \<Rightarrow> string" where
  "not_found_msg session_id = ''Session '' @ session_id @ '' not found''"

definition cannot_accept_msg :: "SessionState \<Rightarrow> string" where
  "cannot_accept_msg st =
     ''Cannot accept message in state '' @ state_value st @
     ''. Session must be IDLE or AI_COMMITTED.''"

text \<open>
  The first block of \<^verbatim>\<open>handle_user_message\<close>: fetch the session when an id is given
  (an empty id counts as none, by Python truthiness), create one otherwise.
\<close>

definition get_or_create ::
  "world \<Rightarrow> string \<Rightarrow> string option \<Rightarrow> string \<Rightarrow> datetime \<Rightarrow> error + world \<times> Session" where
  "get_or_create w uid session_id new_uuid now =
     (if truthy session_id then
        (case get_session (db w) (the session_id) of
           None \<Rightarrow> Inl (ValueError (not_found_msg (the session_id)))
         | Some session \<Rightarrow>
             if user_id session \<noteq> uid
             then Inl (ValueError (''Session '' @ the session_id @
                                   '' does not belong to user '' @ uid))
             else Inr (w, session))
      else
        (let session = \<lparr>id_session = new_uuid, user_id = uid, state = IDLE, messages = [],
                         created_at = now, updated_at = now, error_message = None,
                         retry_count = 0\<rparr>
         in case create_session (db w) session of
              Inl e \<Rightarrow> Inl e
            | Inr d \<Rightarrow> Inr (w\<lparr>db := d\<rparr>, session)))"

text \<open>
  The \<^verbatim>\<open>try\<close> block of \<^verbatim>\<open>handle_user_message\<close>. A failure carries the exception
  with the world and the session as they are when it is raised.
\<close>

definition try_user_message ::
  "world \<Rightarrow> Session \<Rightarrow> string \<Rightarrow> string \<Rightarrow> datetime
     \<Rightarrow> (error \<times> world \<times> Session) + (world \<times> Session)" where
  "try_user_message w session message_content msg_uuid now =
     (case update_state session USER_WRITING None now of
        Inl e \<Rightarrow> Inl (e, w, session)
      | Inr s1 \<Rightarrow>
          (case update_session (db w) s1 of
             Inl e \<Rightarrow> Inl (e, w, s1)
           | Inr d1 \<Rightarrow>
               (let user_msg = \<lparr>id_message = msg_uuid, role = ''user'',
                                 content = message_content, timestamp = now\<rparr>;
                    s2 = add_message s1 user_msg now
                in case update_state s2 USER_COMMITTED None now of
                     Inl e \<Rightarrow> Inl (e, w\<lparr>db := d1\<rparr>, s2)
                   | Inr s3 \<Rightarrow>
                       (case update_session d1 s3 of
                          Inl e \<Rightarrow> Inl (e, w\<lparr>db := d1\<rparr>, s3)
                        | Inr d2 \<Rightarrow>
                            Inr (w\<lparr>db := d2,
                                    brk := enqueue_session (brk w) (id_session s3)\<rparr>, s3)))))"

text \<open>
  \<^verbatim>\<open>handle_user_message\<close>. The \<^verbatim>\<open>except\<close> block moves the session to
  \<^verbatim>\<open>ERROR\<close> with the text of the exception and re-raises it; an exception raised by
  the block itself replaces the first one.
\<close>

definition handle_user_message ::
  "world \<Rightarrow> string \<Rightarrow> string \<Rightarrow> string option \<Rightarrow> string \<Rightarrow> string \<Rightarrow> datetime
     \<Rightarrow> world \<times> (error + Session)" where
  "handle_user_message w uid message_content session_id new_uuid msg_uuid now =
     (case get_or_create w uid session_id new_uuid now of
        Inl e \<Rightarrow> (w, Inl e)
      | Inr (w0, session) \<Rightarrow>
          if state session \<notin> set [IDLE, AI_COMMITTED]
          then (w0, Inl (ValueError (cannot_accept_msg (state session))))
          else
            (case try_user_message w0 session message_content msg_uuid now of
               Inr (w1, s) \<Rightarrow> (w1, Inr s)
             | Inl (e, w1, s) \<Rightarrow>
                 (case update_state s ERROR (Some (str_error e)) now of
                    Inl e2 \<Rightarrow> (w1, Inl e2)
                  | Inr s_err \<Rightarrow>
                      (case update_session (db w1) s_err of
                         Inl e2 \<Rightarrow> (w1, Inl e2)
                       | Inr d \<Rightarrow> (w1\<lparr>db := d\<rparr>, Inl e)))))"

definition start_ai_generation ::
  "world \<Rightarrow> string \<Rightarrow> datetime \<Rightarrow> world \<times> (error + Session)" where
  "start_ai_generation w session_id now =
     (case get_session (db w) session_id of
        None \<Rightarrow> (w, Inl (ValueError (not_found_msg session_id)))
      | Some session \<Rightarrow>
          if state session \<noteq> USER_COMMITTED
          then (w, Inl (ValueError (''Cannot start AI generation in state '' @
                                    state_value (state session) @
                                    ''. Expected USER_COMMITTED.'')))
          else
            (case update_state session AI_GENERATING None now of
               Inl e \<Rightarrow> (w, Inl e)
             | Inr s1 \<Rightarrow>
                 (case update_session (db w) s1 of
                    Inl e \<Rightarrow> (w, Inl e)
                  | Inr d \<Rightarrow> (w\<lparr>db := d\<rparr>, Inr s1))))"

definition commit_ai_message ::
  "world \<Rightarrow> string \<Rightarrow> string \<Rightarrow> string \<Rightarrow> datetime \<Rightarrow> world \<times> (error + Session)" where
  "commit_ai_message w session_id message_content msg_uuid now =
     (case get_session (db w) session_id of
        None \<Rightarrow> (w, Inl (ValueError (not_found_msg session_id)))
      | Some session \<Rightarrow>
          if state session \<noteq> AI_GENERATING
          then (w, Inl (ValueError (''Cannot commit AI message in state '' @
                                    state_value (state session) @
                                    ''. Expected AI_GENERATING.'')))
          else
            (let ai_msg = \<lparr>id_message = msg_uuid, role = ''assistant'',
                            content = message_content, timestamp = now\<rparr>;
                 s1 = add_message session ai_msg now
             in case update_state s1 AI_COMMITTED None now of
                  Inl e \<Rightarrow> (w, Inl e)
                | Inr s2 \<Rightarrow>
                    (case update_session (db w) s2 of
                       Inl e \<Rightarrow> (w, Inl e)
                     | Inr d1 \<Rightarrow>
                         (case update_state s2 IDLE None now of
                            Inl e \<Rightarrow> (w\<lparr>db := d1\<rparr>, Inl e)
                          | Inr s3 \<Rightarrow>
                              (case update_session d1 s3 of
                                 Inl e \<Rightarrow> (w\<lparr>db := d1\<rparr>, Inl e)
                               | Inr d2 \<Rightarrow> (w\<lparr>db := d2\<rparr>, Inr s3))))))"

definition mark_error ::
  "world \<Rightarrow> string \<Rightarrow> string \<Rightarrow> datetime \<Rightarrow> world \<times> (error + Session)" where
  "mark_error w session_id err_text now =
     (case get_session (db w) session_id of
        None \<Rightarrow> (w, Inl (ValueError (not_found_msg session_id)))
      | Some session \<Rightarrow>
          (case update_state session ERROR (Some err_text) now of
             Inl e \<Rightarrow> (w, Inl e)
           | Inr s1 \<Rightarrow>
               (let s2 = s1\<lparr>retry_count := retry_count s1 + 1\<rparr>
                in case update_session (db w) s2 of
                     Inl e \<Rightarrow> (w, Inl e)
                   | Inr d \<Rightarrow> (w\<lparr>db := d\<rparr>, Inr s2))))"

section \<open>The generation worker (src/ai\_service.py)\<close>

text \<open>
  Strings are modelled as lists of 8-bit characters; the string functions below are
  Python's on ASCII text. \<^verbatim>\<open>str.lower\<close> maps the letters A to Z to a to z.
\<close>

definition lower_char :: "char \<Rightarrow> char" where
  "lower_char c =
     (if (65::nat) \<le> of_char c \<and> of_char c \<le> (90::nat)
      then char_of (of_char c + (32::nat)) else c)"

definition lower :: "string \<Rightarrow> string" where
  "lower s = map lower_char s"

fun starts_with :: "string \<Rightarrow> string \<Rightarrow> bool" where
  "starts_with s [] = True"
| "starts_with [] (p # ps) = False"
| "starts_with (c # cs) (p # ps) = (c = p \<and> starts_with cs ps)"

text \<open>\<open>contains s sub\<close> is Python's \<^verbatim>\<open>sub in s\<close>.\<close>

fun contains :: "string \<Rightarrow> string \<Rightarrow> bool" where
  "contains [] sub = (sub = [])"
| "contains (c # cs) sub = (starts_with (c # cs) sub \<or> contains cs sub)"

definition generate_mock_response :: "string \<Rightarrow> string" where
  "generate_mock_response user_message =
     (let user_lower = lower user_message in
      if contains user_lower ''hello'' \<or> contains user_lower ''hi''
      then ''Hello! I'' @ [quote] @ ''m a mock AI assistant. How can I help you today?''
      else if contains user_lower ''how are you''
      then ''I'' @ [quote] @ ''m doing well, thank you for asking! I'' @ [quote] @
           ''m a demo chatbot showcasing FSM-based state management.''
      else if contains user_lower ''bye'' \<or> contains user_lower ''goodbye''
      then ''Goodbye! Thanks for chatting with me. Feel free to start a new conversation anytime.''
      else if contains user_lower ''name''
      then ''I'' @ [quote] @
           ''m FSM Bot, a demonstration chatbot built to showcase distributed systems patterns.''
      else ''I received your message: '' @ [quote] @ user_message @ [quote] @
           ''. This is a mock response demonstrating token streaming and state management.'')"

text \<open>
  \<^verbatim>\<open>str.split()\<close> without arguments: the maximal runs of non-whitespace characters.
  The ASCII whitespace characters are the codes 9 to 13, 28 to 31 and 32.
\<close>

definition is_space :: "char \<Rightarrow> bool" where
  "is_space c =
     (let n = (of_char c :: nat) in (9 \<le> n \<and> n \<le> 13) \<or> (28 \<le> n \<and> n \<le> 32))"

fun split_acc :: "string \<Rightarrow> string \<Rightarrow> string list" where
  "split_acc cur [] = (if cur = [] then [] else [cur])"
| "split_acc cur (c # cs) =
     (if is_space c
      then (if cur = [] then split_acc [] cs else cur # split_acc [] cs)
      else split_acc (cur @ [c]) cs)"

definition split_str :: "string \<Rightarrow> string list" where
  "split_str s = split_acc [] s"

text \<open>
  The worker is one task of an event loop. The calls of the state machine, of the store
  and of the broker run without suspension (no lock is held across a suspension and the
  queues are unbounded), so each is one step. \<^verbatim>\<open>_stream_response\<close> suspends at
  \<^verbatim>\<open>await asyncio.sleep(0.05)\<close> after each token, and there the other tasks run: the
  request handlers of src/main.py, which submit a message (\<^verbatim>\<open>handle_user_message\<close>) or
  delete a session, and the stream relays, which subscribe to a session's queue, take an
  event out of it or release it.
\<close>

datatype env_op =
  Submit string string "string option" string string datetime
| Delete string
| Subscribe string
| Take string
| Release string

fun env_step :: "world \<Rightarrow> env_op \<Rightarrow> world" where
  "env_step w (Submit uid text session_id new_uuid msg_uuid now) =
     fst (handle_user_message w uid text session_id new_uuid msg_uuid now)"
| "env_step w (Delete session_id) = w\<lparr>db := delete_session (db w) session_id\<rparr>"
| "env_step w (Subscribe session_id) = w\<lparr>brk := fst (get_session_events (brk w) session_id)\<rparr>"
| "env_step w (Take session_id) = w\<lparr>brk := take_event (brk w) session_id\<rparr>"
| "env_step w (Release session_id) = w\<lparr>brk := cleanup_session_queue (brk w) session_id\<rparr>"

text \<open>
  What the other tasks do during a cycle is a list with one entry for each sleep: the
  steps they take during that sleep, in order. A sleep without an entry passes with no
  step of another task.
\<close>

type_synonym interference = "env_op list list"

definition sleep :: "world \<Rightarrow> interference \<Rightarrow> world" where
  "sleep w iv = (case iv of [] \<Rightarrow> w | ops # later \<Rightarrow> foldl env_step w ops)"

text \<open>
  The loop of \<^verbatim>\<open>_stream_response\<close> over \<^verbatim>\<open>enumerate(words)\<close>: one \<^verbatim>\<open>token\<close> event
  for each word, the index deciding whether a space goes before it, and a sleep after
  each event.
\<close>

fun stream_words :: "world \<Rightarrow> string \<Rightarrow> nat \<Rightarrow> string list \<Rightarrow> interference \<Rightarrow> world" where
  "stream_words w session_id i [] iv = w"
| "stream_words w session_id i (word # rest) iv =
     (let token = (if i = 0 then word else '' '' @ word);
          event = \<lparr>event_type = ''token'', data = token\<rparr>;
          w1 = w\<lparr>brk := send_event (brk w) session_id event\<rparr>;
          w2 = sleep w1 iv
      in stream_words w2 session_id (Suc i) rest (tl iv))"

definition stream_response :: "world \<Rightarrow> string \<Rightarrow> string \<Rightarrow> interference \<Rightarrow> world" where
  "stream_response w session_id response iv =
     (let words = split_str response;
          w1 = stream_words w session_id 0 words iv;
          end_event = \<lparr>event_type = ''message_end'', data = []\<rparr>
      in w1\<lparr>brk := send_event (brk w1) session_id end_event\<rparr>)"

text \<open>
  The \<^verbatim>\<open>try\<close> block of \<^verbatim>\<open>_process_session\<close>; a failure carries the exception and
  the world as it is when the exception is raised.
\<close>

definition try_process_session ::
  "world \<Rightarrow> string \<Rightarrow> string \<Rightarrow> datetime \<Rightarrow> interference \<Rightarrow> (error \<times> world) + world" where
  "try_process_session w session_id msg_uuid now iv =
     (case start_ai_generation w session_id now of
        (w1, Inl e) \<Rightarrow> Inl (e, w1)
      | (w1, Inr session) \<Rightarrow>
          (let last_message = (if messages session \<noteq> [] then Some (last (messages session))
                               else None)
           in case last_message of
                None \<Rightarrow> Inl (ValueError ''No user message found'', w1)
              | Some m \<Rightarrow>
                  if role m \<noteq> ''user'' then Inl (ValueError ''No user message found'', w1)
                  else
                    (let response = generate_mock_response (content m);
                         w2 = stream_response w1 session_id response iv
                     in case commit_ai_message w2 session_id response msg_uuid now of
                          (w3, Inl e) \<Rightarrow> Inl (e, w3)
                        | (w3, Inr s) \<Rightarrow>
                            (let completion_event =
                                   \<lparr>event_type = ''commit_done'', data = session_id\<rparr>
                             in Inr (w3\<lparr>brk := send_event (brk w3) session_id
                                                   completion_event\<rparr>)))))"

text \<open>
  \<^verbatim>\<open>_process_session\<close>: one generation cycle, with what the other tasks do during its
  sleeps. A failure of the \<^verbatim>\<open>try\<close> block is answered by \<^verbatim>\<open>mark_error\<close> and an
  \<^verbatim>\<open>error\<close> event; when \<^verbatim>\<open>mark_error\<close> itself raises, the exception is logged and
  nothing more is published.
\<close>

definition process_session ::
  "world \<Rightarrow> string \<Rightarrow> string \<Rightarrow> datetime \<Rightarrow> interference \<Rightarrow> world" where
  "process_session w session_id msg_uuid now iv =
     (case try_process_session w session_id msg_uuid now iv of
        Inr w1 \<Rightarrow> w1
      | Inl (e, w1) \<Rightarrow>
          (case mark_error w1 session_id (str_error e) now of
             (w2, Inl e2) \<Rightarrow> w2
           | (w2, Inr s) \<Rightarrow>
               (let error_event = \<lparr>event_type = ''error'', data = str_error e\<rparr>
                in w2\<lparr>brk := send_event (brk w2) session_id error_event\<rparr>)))"

section \<open>Dequeuing with a timeout (src/broker.py)\<close>






section \<open>Runs of the system\<close>

definition init_world :: world where
  "init_world = \<lparr>db = \<lparr>sessions = Map.empty, observed = []\<rparr>,
                 brk = \<lparr>work_queue = [], session_queues = Map.empty, sent = []\<rparr>\<rparr>"

text \<open>
  The calls that change sessions: the four operations of the state machine, which the
  request handlers, the worker and the tests call, and a generation cycle of the worker
  that no other task interrupts. A run is a sequence of such calls, each with the
  identifiers and the clock reading it draws. A cycle during whose sleeps messages are
  submitted is, for the store, the run of \<open>StartAIGeneration\<close>, the submissions, and
  \<open>CommitAIMessage\<close> or \<open>MarkError\<close>.
\<close>

datatype fsm_op =
  HandleUserMessage string string "string option" string string datetime
| StartAIGeneration string datetime
| CommitAIMessage string string string datetime
| MarkError string string datetime
| ProcessSession string string datetime

fun exec :: "world \<Rightarrow> fsm_op \<Rightarrow> world" where
  "exec w (HandleUserMessage uid text session_id new_uuid msg_uuid now) =
     fst (handle_user_message w uid text session_id new_uuid msg_uuid now)"
| "exec w (StartAIGeneration session_id now) = fst (start_ai_generation w session_id now)"
| "exec w (CommitAIMessage session_id text msg_uuid now) =
     fst (commit_ai_message w session_id text msg_uuid now)"
| "exec w (MarkError session_id err_text now) = fst (mark_error w session_id err_text now)"
| "exec w (ProcessSession session_id msg_uuid now) =
     process_session w session_id msg_uuid now []"

definition run :: "world \<Rightarrow> fsm_op list \<Rightarrow> world" where
  "run w ops = foldl exec w ops"

text \<open>The states of one session in the order in which the store has held them.\<close>

definition states_of :: "string \<Rightarrow> (string \<times> SessionState) list \<Rightarrow> SessionState list" where
  "states_of session_id obs = map snd (filter (\<lambda>p. fst p = session_id) obs)"

fun walk :: "SessionState list \<Rightarrow> bool" where
  "walk [] = True"
| "walk [s] = True"
| "walk (s # t # rest) = (t \<in> set (VALID_TRANSITIONS s) \<and> walk (t # rest))"

text \<open>
  What holds of the store between calls: a session is stored under its own id, the log
  of a stored session ends with its state, an id without a session has an empty log,
  the log of an id starts with \<open>IDLE\<close> and is a walk on the transition table, and
  a session outside \<open>ERROR\<close> has no error text.
\<close>

definition session_ok :: "database \<Rightarrow> string \<Rightarrow> bool" where
  "session_ok d k =
     (let h = states_of k (observed d) in
      walk h \<and> (h = [] \<or> hd h = IDLE) \<and>
      (case sessions d k of
         None \<Rightarrow> h = []
       | Some s \<Rightarrow> id_session s = k \<and> h \<noteq> [] \<and> last h = state s \<and>
                   (state s = ERROR \<or> error_message s = None)))"

definition store_inv :: "database \<Rightarrow> bool" where
  "store_inv d = (\<forall>k. session_ok d k)"

section \<open>Events of a generation cycle\<close>

definition queue_of :: "broker \<Rightarrow> string \<Rightarrow> StreamEvent list" where
  "queue_of b session_id = (case session_queues b session_id of None \<Rightarrow> [] | Some q \<Rightarrow> q)"

text \<open>The events published to a session so far, in order.\<close>

definition sent_to :: "broker \<Rightarrow> string \<Rightarrow> StreamEvent list" where
  "sent_to b session_id = map snd (filter (\<lambda>p. fst p = session_id) (sent b))"

text \<open>The events published to a session on the way from world \<open>w\<close> to world \<open>w'\<close>.\<close>

definition cycle_events :: "world \<Rightarrow> world \<Rightarrow> string \<Rightarrow> StreamEvent list" where
  "cycle_events w w' session_id =
     drop (length (sent_to (brk w) session_id)) (sent_to (brk w') session_id)"

text \<open>A store in which every session is kept under its own id.\<close>

definition keys_ok :: "database \<Rightarrow> bool" where
  "keys_ok d = (\<forall>k s. sessions d k = Some s \<longrightarrow> id_session s = k)"



definition token_payloads :: "StreamEvent list \<Rightarrow> string list" where
  "token_payloads evs = map data (filter (\<lambda>e. event_type e = ''token'') evs)"

text \<open>
  An error text names a transition when it contains the value of the current state,
  the value of the target and the printed list of the allowed targets.
\<close>

definition names_transition :: "string \<Rightarrow> SessionState \<Rightarrow> SessionState \<Rightarrow> bool" where
  "names_transition msg cur target =
     (contains msg (state_value cur) \<and> contains msg (state_value target) \<and>
      contains msg (str_list (map state_value (VALID_TRANSITIONS cur))))"

definition publish_all :: "broker \<Rightarrow> (string \<times> StreamEvent) list \<Rightarrow> broker" where
  "publish_all b evs = foldl (\<lambda>b p. send_event b (fst p) (snd p)) b evs"

section \<open>Abbreviating definitions for the results of the operations\<close>

text \<open>
  The store after a write of session \<open>s\<close>, and the sessions the operations produce:
  after a transition without error text, after the user's message has been taken,
  after the assistant's message has been committed, after \<^verbatim>\<open>mark_error\<close>.
\<close>

definition stored :: "database \<Rightarrow> Session \<Rightarrow> database" where
  "stored d s = d\<lparr>sessions := (sessions d)(id_session s \<mapsto> s),
                  observed := observed d @ [(id_session s, state s)]\<rparr>"

definition moved :: "Session \<Rightarrow> SessionState \<Rightarrow> datetime \<Rightarrow> Session" where
  "moved s t now = s\<lparr>state := t, updated_at := now, error_message := None\<rparr>"

definition user_msg :: "string \<Rightarrow> string \<Rightarrow> datetime \<Rightarrow> Message" where
  "user_msg msg_uuid text now =
     \<lparr>id_message = msg_uuid, role = ''user'', content = text, timestamp = now\<rparr>"

definition ai_msg :: "string \<Rightarrow> string \<Rightarrow> datetime \<Rightarrow> Message" where
  "ai_msg msg_uuid text now =
     \<lparr>id_message = msg_uuid, role = ''assistant'', content = text, timestamp = now\<rparr>"

definition submitted :: "Session \<Rightarrow> string \<Rightarrow> string \<Rightarrow> datetime \<Rightarrow> Session" where
  "submitted s text msg_uuid now =
     moved (add_message (moved s USER_WRITING now) (user_msg msg_uuid text now) now)
       USER_COMMITTED now"

definition committed :: "Session \<Rightarrow> string \<Rightarrow> string \<Rightarrow> datetime \<Rightarrow> Session" where
  "committed s text msg_uuid now =
     moved (add_message s (ai_msg msg_uuid text now) now) AI_COMMITTED now"

definition errored :: "Session \<Rightarrow> string \<Rightarrow> datetime \<Rightarrow> Session" where
  "errored s txt now =
     s\<lparr>state := ERROR, updated_at := now,
       error_message := (if txt \<noteq> [] then Some txt else error_message s),
       retry_count := retry_count s + 1\<rparr>"

definition fresh_session :: "string \<Rightarrow> string \<Rightarrow> datetime \<Rightarrow> Session" where
  "fresh_session new_uuid uid now =
     \<lparr>id_session = new_uuid, user_id = uid, state = IDLE, messages = [],
       created_at = now, updated_at = now, error_message = None, retry_count = 0\<rparr>"

definition accepted :: "world \<Rightarrow> Session \<Rightarrow> string \<Rightarrow> string \<Rightarrow> datetime \<Rightarrow> world" where
  "accepted w s text m now =
     w\<lparr>db := stored (stored (db w) (moved s USER_WRITING now)) (submitted s text m now),
       brk := enqueue_session (brk w) (id_session s)\<rparr>"

definition start_gate_msg :: "SessionState \<Rightarrow> string" where
  "start_gate_msg st = ''Cannot start AI generation in state '' @ state_value st @ ''. Expected USER_COMMITTED.''"

definition error_event :: "string \<Rightarrow> StreamEvent" where
  "error_event txt = \<lparr>event_type = ''error'', data = txt\<rparr>"

definition failed_cycle :: "world \<Rightarrow> Session \<Rightarrow> string \<Rightarrow> datetime \<Rightarrow> world" where
  "failed_cycle w s txt now =
     w\<lparr>db := stored (db w) (errored s txt now),
       brk := send_event (brk w) (id_session s) (error_event txt)\<rparr>"

definition commit_done_event :: "string \<Rightarrow> StreamEvent" where
  "commit_done_event k = \<lparr>event_type = ''commit_done'', data = k\<rparr>"

definition answered :: "Session \<Rightarrow> string \<Rightarrow> datetime \<Rightarrow> Session" where
  "answered s m now =
     moved (committed (moved s AI_GENERATING now)
              (generate_mock_response (content (last (messages s)))) m now) IDLE now"

text \<open>The payloads of the token events \<^verbatim>\<open>_stream_response\<close> sends for a list of words.\<close>

fun tokens_from :: "nat \<Rightarrow> string list \<Rightarrow> string list" where
  "tokens_from i [] = []"
| "tokens_from i (word # rest) = (if i = 0 then word else '' '' @ word) # tokens_from (Suc i) rest"

definition token_event :: "string \<Rightarrow> StreamEvent" where
  "token_event t = \<lparr>event_type = ''token'', data = t\<rparr>"

definition message_end_event :: StreamEvent where
  "message_end_event = \<lparr>event_type = ''message_end'', data = []\<rparr>"

text \<open>
  The broker after \<^verbatim>\<open>_stream_response\<close> when no other task takes a step during its
  sleeps: the token events and the \<^verbatim>\<open>message_end\<close> event have been published.
\<close>

definition quiet_stream :: "broker \<Rightarrow> string \<Rightarrow> string \<Rightarrow> broker" where
  "quiet_stream b session_id response =
     publish_all b (map (\<lambda>t. (session_id, token_event t)) (tokens_from 0 (split_str response))
                    @ [(session_id, message_end_event)])"

definition completed_cycle :: "world \<Rightarrow> Session \<Rightarrow> string \<Rightarrow> datetime \<Rightarrow> world" where
  "completed_cycle w s m now =
     (let response = generate_mock_response (content (last (messages s)));
          s1 = moved s AI_GENERATING now;
          s2 = committed s1 response m now
      in w\<lparr>db := stored (stored (stored (db w) s1) s2) (moved s2 IDLE now),
           brk := send_event (quiet_stream (brk w) (id_session s) response) (id_session s)
                    (commit_done_event (id_session s))\<rparr>)"

text \<open>
  One call seen from outside: the world it leaves is the world it found, or one of the
  worlds below. Every call of a run is such a step.
\<close>

inductive step :: "world \<Rightarrow> world \<Rightarrow> bool" where
  stay: "step w w"
| accept: "sessions (db w) (id_session s) = Some s \<Longrightarrow> state s = IDLE \<Longrightarrow>
     step w (accepted w s text m now)"
| create: "sessions (db w) n = None \<Longrightarrow>
     step w (accepted (w\<lparr>db := stored (db w) (fresh_session n uid now)\<rparr>)
               (fresh_session n uid now) text m now)"
| generate: "sessions (db w) (id_session s) = Some s \<Longrightarrow> state s = USER_COMMITTED \<Longrightarrow>
     step w (w\<lparr>db := stored (db w) (moved s AI_GENERATING now)\<rparr>)"
| commit: "sessions (db w) (id_session s) = Some s \<Longrightarrow> state s = AI_GENERATING \<Longrightarrow>
     step w (w\<lparr>db := stored (stored (db w) (committed s text m now))
                       (moved (committed s text m now) IDLE now)\<rparr>)"
| mark: "sessions (db w) (id_session s) = Some s \<Longrightarrow>
     ERROR \<in> set (VALID_TRANSITIONS (state s)) \<Longrightarrow>
     step w (w\<lparr>db := stored (db w) (errored s txt now)\<rparr>)"
| fail_early: "sessions (db w) (id_session s) = Some s \<Longrightarrow>
     ERROR \<in> set (VALID_TRANSITIONS (state s)) \<Longrightarrow>
     step w (failed_cycle w s txt now)"
| fail_late: "sessions (db w) (id_session s) = Some s \<Longrightarrow> state s = USER_COMMITTED \<Longrightarrow>
     step w (failed_cycle (w\<lparr>db := stored (db w) (moved s AI_GENERATING now)\<rparr>)
               (moved s AI_GENERATING now) txt now)"
| complete: "sessions (db w) (id_session s) = Some s \<Longrightarrow> state s = USER_COMMITTED \<Longrightarrow>
     step w (completed_cycle w s m now)"

definition example_ops :: "fsm_op list" where
  "example_ops = [HandleUserMessage ''u'' ''Hello!'' None ''s1'' ''m1'' 1]"

definition example_session :: Session where
  "example_session = submitted (fresh_session ''s1'' ''u'' 1) ''Hello!'' ''m1'' 1"

text \<open>The messages a session has before a call of \<^verbatim>\<open>handle_user_message\<close>.\<close>

definition messages_before :: "world \<Rightarrow> string option \<Rightarrow> Message list" where
  "messages_before w session_id =
     (if truthy session_id
      then (case sessions (db w) (the session_id) of None \<Rightarrow> [] | Some s \<Rightarrow> messages s)
      else [])"

definition example_interference :: interference where
  "example_interference =
     [[Submit ''u'' ''more'' (Some ''s1'') ''s2'' ''m3'' 2, Release ''s1''],
      [Subscribe ''s1'', Take ''s1'', Delete ''s0'']]"


definition example_idle :: world where
  "example_idle = run init_world (example_ops @ [ProcessSession ''s1'' ''m2'' 2])"

definition example_spaces_ops :: "fsm_op list" where
  "example_spaces_ops = [HandleUserMessage ''u'' ''a  b'' None ''s1'' ''m1'' 1]"

definition example_spaces_session :: Session where
  "example_spaces_session = submitted (fresh_session ''s1'' ''u'' 1) ''a  b'' ''m1'' 1"

definition example_generating :: world where
  "example_generating = run init_world (example_ops @ [StartAIGeneration ''s1'' 2])"


section \<open>The event channels\<close>

lemma queue_of_send_event:
  "queue_of (send_event b k e) k' = (if k' = k then queue_of b k @ [e] else queue_of b k')"
  by (auto simp: queue_of_def send_event_def Let_def domIff split: option.splits)

lemma work_queue_send_event: "work_queue (send_event b k e) = work_queue b"
  by (auto simp: send_event_def Let_def split: option.splits)

lemma sent_send_event: "sent (send_event b k e) = sent b @ [(k, e)]"
  by (auto simp: send_event_def Let_def domIff split: option.splits)

lemma sent_to_send_event:
  "sent_to (send_event b k e) k' = (if k' = k then sent_to b k @ [e] else sent_to b k')"
  by (simp add: sent_to_def sent_send_event)

lemma sent_publish_all: "sent (publish_all b evs) = sent b @ evs"
proof (induction evs arbitrary: b)
  case Nil
  show ?case by (simp add: publish_all_def)
next
  case (Cons p evs)
  have "publish_all b (p # evs) = publish_all (send_event b (fst p) (snd p)) evs"
    by (simp add: publish_all_def)
  then show ?case using Cons.IH [of "send_event b (fst p) (snd p)"]
    by (simp add: sent_send_event)
qed

lemma publish_all_append:
  "publish_all b (xs @ ys) = publish_all (publish_all b xs) ys"
  by (simp add: publish_all_def)

lemma publish_all_Cons:
  "publish_all b (p # evs) = publish_all (send_event b (fst p) (snd p)) evs"
  by (simp add: publish_all_def)

lemma queue_of_cleanup: "queue_of (cleanup_session_queue b k) k = []"
  by (auto simp: queue_of_def cleanup_session_queue_def domIff)

lemma queue_of_publish_all:
  "queue_of (publish_all b evs) k = queue_of b k @ map snd (filter (\<lambda>p. fst p = k) evs)"
proof (induction evs arbitrary: b)
  case Nil
  show ?case by (simp add: publish_all_def)
next
  case (Cons p evs)
  have "publish_all b (p # evs) = publish_all (send_event b (fst p) (snd p)) evs"
    by (simp add: publish_all_def)
  then show ?case using Cons.IH [of "send_event b (fst p) (snd p)"]
    by (simp add: queue_of_send_event)
qed

lemma get_session_events_queue: "snd (get_session_events b k) = queue_of b k"
  by (auto simp: get_session_events_def queue_of_def Let_def domIff split: option.splits)

text \<open>
  C10. Releasing a session's event channel is not permanent. After
  \<^verbatim>\<open>cleanup_session_queue\<close> the id has no queue; a \<^verbatim>\<open>send_event\<close> on it then creates
  a new queue that holds the event sent and nothing else; and after any sequence of
  publications that follows the release, to this id and to others,
  \<^verbatim>\<open>get_session_events\<close> returns exactly the events published to this id since the
  release, in order.
\<close>

theorem release_is_not_permanent:
  "session_queues (cleanup_session_queue b k) k = None \<and>
   session_queues (send_event (cleanup_session_queue b k) k e) k = Some [e] \<and>
   snd (get_session_events (publish_all (cleanup_session_queue b k) evs) k) =
     map snd (filter (\<lambda>p. fst p = k) evs)"
proof -
  have "session_queues (cleanup_session_queue b k) k = None"
    by (auto simp: cleanup_session_queue_def domIff)
  moreover have "session_queues (send_event (cleanup_session_queue b k) k e) k = Some [e]"
    by (auto simp: send_event_def cleanup_session_queue_def Let_def domIff)
  moreover have "snd (get_session_events (publish_all (cleanup_session_queue b k) evs) k) =
      map snd (filter (\<lambda>p. fst p = k) evs)"
    by (simp add: get_session_events_queue queue_of_publish_all queue_of_cleanup)
  ultimately show ?thesis by simp
qed

section \<open>What each operation computes\<close>

lemma update_state_rejects:
  "new_state \<notin> set (VALID_TRANSITIONS (state s)) \<Longrightarrow>
   update_state s new_state error_msg now =
     Inl (ValueError (invalid_transition_msg (state s) new_state))"
  by (simp add: update_state_def)

lemma update_state_moves:
  "new_state \<in> set (VALID_TRANSITIONS (state s)) \<Longrightarrow> new_state \<noteq> ERROR \<Longrightarrow>
   update_state s new_state None now = Inr (moved s new_state now)"
  by (simp add: update_state_def moved_def)

lemma update_state_error:
  "ERROR \<in> set (VALID_TRANSITIONS (state s)) \<Longrightarrow>
   update_state s ERROR (Some txt) now =
     Inr (s\<lparr>state := ERROR, updated_at := now,
            error_message := (if txt \<noteq> [] then Some txt else error_message s)\<rparr>)"
  by (simp add: update_state_def)

lemma update_session_ok:
  "sessions d (id_session s) = Some s0 \<Longrightarrow> update_session d s = Inr (stored d s)"
  by (simp add: update_session_def stored_def domIff)

lemma update_session_missing:
  "sessions d (id_session s) = None \<Longrightarrow>
   update_session d s = Inl (ValueError (not_found_msg (id_session s)))"
  by (simp add: update_session_def domIff not_found_msg_def)

lemma create_session_ok:
  "sessions d (id_session s) = None \<Longrightarrow> create_session d s = Inr (stored d s)"
  by (simp add: create_session_def stored_def domIff)

lemma sessions_stored [simp]:
  "sessions (stored d s) k = (if k = id_session s then Some s else sessions d k)"
  by (simp add: stored_def)

lemma observed_stored [simp]:
  "observed (stored d s) = observed d @ [(id_session s, state s)]"
  by (simp add: stored_def)

lemma moved_simps [simp]:
  "state (moved s t now) = t" "id_session (moved s t now) = id_session s"
  "messages (moved s t now) = messages s" "retry_count (moved s t now) = retry_count s"
  "error_message (moved s t now) = None" "user_id (moved s t now) = user_id s"
  by (simp_all add: moved_def)

lemma add_message_simps [simp]:
  "state (add_message s m now) = state s" "id_session (add_message s m now) = id_session s"
  "messages (add_message s m now) = messages s @ [m]"
  "retry_count (add_message s m now) = retry_count s"
  "error_message (add_message s m now) = error_message s"
  "user_id (add_message s m now) = user_id s"
  by (simp_all add: add_message_def)

lemma start_ai_generation_ok:
  assumes "sessions (db w) k = Some s" "id_session s = k" "state s = USER_COMMITTED"
  shows "start_ai_generation w k now =
           (w\<lparr>db := stored (db w) (moved s AI_GENERATING now)\<rparr>, Inr (moved s AI_GENERATING now))"
proof -
  have m: "update_state s AI_GENERATING None now = Inr (moved s AI_GENERATING now)"
    using assms by (simp add: update_state_moves)
  have u: "update_session (db w) (moved s AI_GENERATING now) = Inr (stored (db w) (moved s AI_GENERATING now))"
    using assms by (simp add: update_session_ok)
  show ?thesis using assms by (simp add: start_ai_generation_def get_session_def m u)
qed

lemma start_ai_generation_gate:
  assumes "sessions (db w) k = Some s" "state s \<noteq> USER_COMMITTED"
  shows "start_ai_generation w k now =
           (w, Inl (ValueError (''Cannot start AI generation in state '' @
                                    state_value (state s) @ ''. Expected USER_COMMITTED.'')))"
  using assms by (simp add: start_ai_generation_def get_session_def)

lemma start_ai_generation_missing:
  assumes "sessions (db w) k = None"
  shows "start_ai_generation w k now = (w, Inl (ValueError (not_found_msg k)))"
  using assms by (simp add: start_ai_generation_def get_session_def)

lemma commit_ai_message_ok:
  assumes "sessions (db w) k = Some s" "id_session s = k" "state s = AI_GENERATING"
  shows "commit_ai_message w k text msg_uuid now =
           (w\<lparr>db := stored (stored (db w) (committed s text msg_uuid now))
                      (moved (committed s text msg_uuid now) IDLE now)\<rparr>,
            Inr (moved (committed s text msg_uuid now) IDLE now))"
proof -
  let ?s1 = "add_message s (ai_msg msg_uuid text now) now"
  let ?s2 = "committed s text msg_uuid now"
  let ?s3 = "moved ?s2 IDLE now"
  have m1: "update_state ?s1 AI_COMMITTED None now = Inr ?s2"
    using assms by (simp add: update_state_moves committed_def)
  have u1: "update_session (db w) ?s2 = Inr (stored (db w) ?s2)"
    using assms by (simp add: update_session_ok committed_def)
  have m2: "update_state ?s2 IDLE None now = Inr ?s3"
    by (simp add: update_state_moves committed_def)
  have u2: "update_session (stored (db w) ?s2) ?s3 = Inr (stored (stored (db w) ?s2) ?s3)"
    by (rule update_session_ok [where ?s0.0 = ?s2]) simp
  show ?thesis using assms
    by (simp add: commit_ai_message_def get_session_def Let_def m1 [unfolded ai_msg_def] u1 m2 u2)
qed

lemma commit_ai_message_gate:
  assumes "sessions (db w) k = Some s" "state s \<noteq> AI_GENERATING"
  shows "commit_ai_message w k text msg_uuid now =
           (w, Inl (ValueError (''Cannot commit AI message in state '' @
                                    state_value (state s) @ ''. Expected AI_GENERATING.'')))"
  using assms by (simp add: commit_ai_message_def get_session_def)

lemma commit_ai_message_missing:
  assumes "sessions (db w) k = None"
  shows "commit_ai_message w k text msg_uuid now = (w, Inl (ValueError (not_found_msg k)))"
  using assms by (simp add: commit_ai_message_def get_session_def)

lemma mark_error_ok:
  assumes "sessions (db w) k = Some s" "id_session s = k"
    "ERROR \<in> set (VALID_TRANSITIONS (state s))"
  shows "mark_error w k txt now = (w\<lparr>db := stored (db w) (errored s txt now)\<rparr>, Inr (errored s txt now))"
proof -
  let ?s1 = "s\<lparr>state := ERROR, updated_at := now,
            error_message := (if txt \<noteq> [] then Some txt else error_message s)\<rparr>"
  have e: "?s1\<lparr>retry_count := retry_count ?s1 + 1\<rparr> = errored s txt now"
    by (simp add: errored_def)
  have u: "update_session (db w) (errored s txt now) = Inr (stored (db w) (errored s txt now))"
    by (rule update_session_ok [where ?s0.0 = s]) (simp add: errored_def assms)
  show ?thesis using assms(1)
    by (simp only: mark_error_def get_session_def option.case update_state_error [OF assms(3)]
        sum.case Let_def e u)
qed

lemma mark_error_rejected:
  assumes "sessions (db w) k = Some s" "ERROR \<notin> set (VALID_TRANSITIONS (state s))"
  shows "mark_error w k txt now = (w, Inl (ValueError (invalid_transition_msg (state s) ERROR)))"
  using assms by (simp add: mark_error_def get_session_def update_state_rejects)

lemma mark_error_missing:
  assumes "sessions (db w) k = None"
  shows "mark_error w k txt now = (w, Inl (ValueError (not_found_msg k)))"
  using assms by (simp add: mark_error_def get_session_def)

lemma submitted_simps [simp]:
  "state (submitted s text m now) = USER_COMMITTED"
  "id_session (submitted s text m now) = id_session s"
  "messages (submitted s text m now) = messages s @ [user_msg m text now]"
  "retry_count (submitted s text m now) = retry_count s"
  "error_message (submitted s text m now) = None"
  "user_id (submitted s text m now) = user_id s"
  by (simp_all add: submitted_def)

lemma committed_simps [simp]:
  "state (committed s text m now) = AI_COMMITTED"
  "id_session (committed s text m now) = id_session s"
  "messages (committed s text m now) = messages s @ [ai_msg m text now]"
  "retry_count (committed s text m now) = retry_count s"
  "error_message (committed s text m now) = None"
  "user_id (committed s text m now) = user_id s"
  by (simp_all add: committed_def)

lemma errored_simps [simp]:
  "state (errored s txt now) = ERROR"
  "id_session (errored s txt now) = id_session s"
  "messages (errored s txt now) = messages s"
  "retry_count (errored s txt now) = retry_count s + 1"
  "error_message (errored s txt now) = (if txt \<noteq> [] then Some txt else error_message s)"
  "user_id (errored s txt now) = user_id s"
  by (simp_all add: errored_def)

lemma fresh_session_simps [simp]:
  "state (fresh_session n u now) = IDLE"
  "id_session (fresh_session n u now) = n"
  "messages (fresh_session n u now) = []"
  "retry_count (fresh_session n u now) = 0"
  "error_message (fresh_session n u now) = None"
  "user_id (fresh_session n u now) = u"
  by (simp_all add: fresh_session_def)

lemma try_user_message_idle:
  assumes "sessions (db w) (id_session s) = Some s0" "state s = IDLE"
  shows "try_user_message w s text m now =
           Inr (w\<lparr>db := stored (stored (db w) (moved s USER_WRITING now)) (submitted s text m now),
                  brk := enqueue_session (brk w) (id_session s)\<rparr>,
                submitted s text m now)"
proof -
  let ?s1 = "moved s USER_WRITING now"
  let ?s2 = "add_message ?s1 (user_msg m text now) now"
  let ?s3 = "submitted s text m now"
  have m1: "update_state s USER_WRITING None now = Inr ?s1"
    using assms by (simp add: update_state_moves)
  have u1: "update_session (db w) ?s1 = Inr (stored (db w) ?s1)"
    using assms by (simp add: update_session_ok)
  have m2: "update_state ?s2 USER_COMMITTED None now = Inr ?s3"
    by (simp add: update_state_moves submitted_def)
  have u2: "update_session (stored (db w) ?s1) ?s3 = Inr (stored (stored (db w) ?s1) ?s3)"
    by (rule update_session_ok [where ?s0.0 = ?s1]) simp
  show ?thesis
    by (simp add: try_user_message_def Let_def m1 u1 m2 [unfolded user_msg_def] u2)
qed

lemma try_user_message_ai_committed:
  assumes "state s = AI_COMMITTED"
  shows "try_user_message w s text m now =
           Inl (ValueError (invalid_transition_msg AI_COMMITTED USER_WRITING), w, s)"
  using assms by (simp add: try_user_message_def update_state_rejects)

lemma handle_user_message_existing:
  assumes "k \<noteq> []" "sessions (db w) k = Some s" "id_session s = k" "user_id s = uid"
  shows "handle_user_message w uid text (Some k) n m now =
           (if state s = IDLE then (accepted w s text m now, Inr (submitted s text m now))
            else if state s = AI_COMMITTED
            then (w, Inl (ValueError (invalid_transition_msg AI_COMMITTED ERROR)))
            else (w, Inl (ValueError (cannot_accept_msg (state s)))))"
proof -
  have g: "get_or_create w uid (Some k) n now = Inr (w, s)"
    using assms by (simp add: get_or_create_def get_session_def)
  show ?thesis
  proof (cases "state s = IDLE")
    case True
    have "try_user_message w s text m now = Inr (accepted w s text m now, submitted s text m now)"
      unfolding accepted_def using assms True by (intro try_user_message_idle) auto
    then show ?thesis using True by (simp add: handle_user_message_def g)
  next
    case False
    show ?thesis
    proof (cases "state s = AI_COMMITTED")
      case True
      have r: "update_state s ERROR (Some (invalid_transition_msg AI_COMMITTED USER_WRITING)) now
               = Inl (ValueError (invalid_transition_msg AI_COMMITTED ERROR))"
        using True update_state_rejects [of ERROR s] by simp
      show ?thesis using True
        by (simp add: handle_user_message_def g try_user_message_ai_committed r)
    next
      case False
      then show ?thesis using \<open>state s \<noteq> IDLE\<close> by (simp add: handle_user_message_def g)
    qed
  qed
qed

lemma handle_user_message_missing:
  assumes "k \<noteq> []" "sessions (db w) k = None"
  shows "handle_user_message w uid text (Some k) n m now = (w, Inl (ValueError (not_found_msg k)))"
  using assms by (simp add: handle_user_message_def get_or_create_def get_session_def)

lemma handle_user_message_not_owner:
  assumes "k \<noteq> []" "sessions (db w) k = Some s" "user_id s \<noteq> uid"
  shows "handle_user_message w uid text (Some k) n m now =
    (w, Inl (ValueError (''Session '' @ k @ '' does not belong to user '' @ uid)))"
  using assms by (simp add: handle_user_message_def get_or_create_def get_session_def)

lemma handle_user_message_new:
  assumes "\<not> truthy sid" "sessions (db w) n = None"
  shows "handle_user_message w uid text sid n m now =
           (accepted (w\<lparr>db := stored (db w) (fresh_session n uid now)\<rparr>) (fresh_session n uid now) text m now,
            Inr (submitted (fresh_session n uid now) text m now))"
proof -
  let ?f = "fresh_session n uid now"
  let ?w0 = "w\<lparr>db := stored (db w) ?f\<rparr>"
  have c: "create_session (db w) ?f = Inr (stored (db w) ?f)"
    using assms by (simp add: create_session_ok)
  have g: "get_or_create w uid sid n now = Inr (?w0, ?f)"
    using assms(1) by (simp add: get_or_create_def Let_def c [unfolded fresh_session_def] fresh_session_def)
  have "try_user_message ?w0 ?f text m now = Inr (accepted ?w0 ?f text m now, submitted ?f text m now)"
    unfolding accepted_def by (rule try_user_message_idle [where ?s0.0 = ?f]) simp_all
  then show ?thesis by (simp add: handle_user_message_def g)
qed

lemma handle_user_message_collision:
  assumes "\<not> truthy sid" "sessions (db w) n = Some s"
  shows "handle_user_message w uid text sid n m now =
           (w, Inl (ValueError (''Session '' @ n @ '' already exists'')))"
  using assms by (simp add: handle_user_message_def get_or_create_def Let_def create_session_def domIff)

lemma process_session_missing:
  assumes "sessions (db w) k = None"
  shows "process_session w k m now iv = w"
  using assms
  by (simp add: process_session_def try_process_session_def start_ai_generation_missing
      mark_error_missing)

lemma process_session_wrong_state:
  assumes "sessions (db w) k = Some s" "id_session s = k" "state s \<noteq> USER_COMMITTED"
  shows "process_session w k m now iv =
           (if ERROR \<in> set (VALID_TRANSITIONS (state s))
            then failed_cycle w s (start_gate_msg (state s)) now else w)"
proof -
  have t: "try_process_session w k m now iv = Inl (ValueError (start_gate_msg (state s)), w)"
    using assms by (simp add: try_process_session_def start_ai_generation_gate start_gate_msg_def)
  show ?thesis
  proof (cases "ERROR \<in> set (VALID_TRANSITIONS (state s))")
    case True
    then show ?thesis using assms
      by (simp add: process_session_def t mark_error_ok failed_cycle_def error_event_def)
  next
    case False
    then show ?thesis using assms
      by (simp add: process_session_def t mark_error_rejected)
  qed
qed

lemma process_session_no_user_message:
  assumes "sessions (db w) k = Some s" "id_session s = k" "state s = USER_COMMITTED"
    "messages s = [] \<or> role (last (messages s)) \<noteq> ''user''"
  shows "process_session w k m now iv =
           failed_cycle (w\<lparr>db := stored (db w) (moved s AI_GENERATING now)\<rparr>)
             (moved s AI_GENERATING now) ''No user message found'' now"
proof -
  let ?s1 = "moved s AI_GENERATING now"
  let ?w1 = "w\<lparr>db := stored (db w) ?s1\<rparr>"
  have t: "try_process_session w k m now iv = Inl (ValueError ''No user message found'', ?w1)"
    using assms by (auto simp: try_process_session_def start_ai_generation_ok Let_def)
  have e: "mark_error ?w1 k ''No user message found'' now =
      (?w1\<lparr>db := stored (db ?w1) (errored ?s1 ''No user message found'' now)\<rparr>,
       Inr (errored ?s1 ''No user message found'' now))"
    by (rule mark_error_ok) (simp_all add: assms)
  show ?thesis using assms(2)
    by (simp add: process_session_def t e failed_cycle_def error_event_def)
qed

lemma sleep_quiet: "sleep w [] = w"
  by (simp add: sleep_def)

lemma stream_words_quiet:
  "stream_words w k i ws [] =
     w\<lparr>brk := publish_all (brk w) (map (\<lambda>t. (k, token_event t)) (tokens_from i ws))\<rparr>"
proof (induction ws arbitrary: w i)
  case Nil
  show ?case by (simp add: publish_all_def)
next
  case (Cons word rest)
  show ?case
    by (simp add: Let_def sleep_quiet Cons.IH publish_all_Cons token_event_def)
qed

lemma stream_response_quiet:
  "stream_response w k r [] = w\<lparr>brk := quiet_stream (brk w) k r\<rparr>"
  by (simp add: stream_response_def Let_def stream_words_quiet quiet_stream_def
      publish_all_append publish_all_Cons message_end_event_def)
     (simp add: publish_all_def)

lemma process_session_completes:
  assumes "sessions (db w) k = Some s" "id_session s = k" "state s = USER_COMMITTED"
    "messages s \<noteq> []" "role (last (messages s)) = ''user''"
  shows "process_session w k m now [] = completed_cycle w s m now"
proof -
  let ?r = "generate_mock_response (content (last (messages s)))"
  let ?s1 = "moved s AI_GENERATING now"
  let ?w1 = "w\<lparr>db := stored (db w) ?s1\<rparr>"
  let ?w2 = "?w1\<lparr>brk := quiet_stream (brk ?w1) k ?r\<rparr>"
  have st: "start_ai_generation w k now = (?w1, Inr ?s1)"
    using assms by (simp add: start_ai_generation_ok)
  have c: "commit_ai_message ?w2 k ?r m now =
        (?w2\<lparr>db := stored (stored (db ?w2) (committed ?s1 ?r m now))
                      (moved (committed ?s1 ?r m now) IDLE now)\<rparr>,
            Inr (moved (committed ?s1 ?r m now) IDLE now))"
    by (rule commit_ai_message_ok) (simp_all add: assms)
  have t: "try_process_session w k m now [] =
     Inr (?w2\<lparr>db := stored (stored (db ?w2) (committed ?s1 ?r m now))
                      (moved (committed ?s1 ?r m now) IDLE now),
              brk := send_event (quiet_stream (brk ?w1) k ?r) k (commit_done_event k)\<rparr>)"
    using assms(4,5) c
    by (simp add: try_process_session_def st Let_def commit_done_event_def stream_response_quiet)
  show ?thesis using assms(2)
    by (simp add: process_session_def t completed_cycle_def Let_def)
qed

lemma store_inv_id: "store_inv d \<Longrightarrow> sessions d k = Some s \<Longrightarrow> id_session s = k"
proof -
  assume "store_inv d" and s: "sessions d k = Some s"
  then have "session_ok d k" by (simp add: store_inv_def)
  then show ?thesis using s by (simp add: session_ok_def Let_def)
qed

lemma step_exec:
  assumes inv: "store_inv (db w)"
  shows "step w (exec w op)"
proof (cases op)
  case (HandleUserMessage uid body sid n m now)
  show ?thesis
  proof (cases "truthy sid")
    case True
    then obtain k where sid: "sid = Some k" and k: "k \<noteq> []" by (cases sid) auto
    show ?thesis
    proof (cases "sessions (db w) k")
      case None
      then show ?thesis using HandleUserMessage sid k
        by (simp add: handle_user_message_missing step.stay)
    next
      case (Some s)
      then have ids: "id_session s = k" using inv by (rule store_inv_id [rotated])
      show ?thesis
      proof (cases "user_id s = uid")
        case False
        then show ?thesis using HandleUserMessage sid k Some
          by (simp add: handle_user_message_not_owner step.stay)
      next
        case True
        have "sessions (db w) (id_session s) = Some s" using Some ids by simp
        then show ?thesis using HandleUserMessage sid k Some ids True
          by (auto simp: handle_user_message_existing intro: step.stay step.accept)
      qed
    qed
  next
    case False
    show ?thesis
    proof (cases "sessions (db w) n")
      case None
      then show ?thesis using HandleUserMessage False
        by (simp add: handle_user_message_new step.create)
    next
      case (Some s)
      then show ?thesis using HandleUserMessage False
        by (simp add: handle_user_message_collision step.stay)
    qed
  qed
next
  case (StartAIGeneration k now)
  show ?thesis
  proof (cases "sessions (db w) k")
    case None
    then show ?thesis using StartAIGeneration
      by (simp add: start_ai_generation_missing step.stay)
  next
    case (Some s)
    then have ids: "id_session s = k" using inv by (rule store_inv_id [rotated])
    then have here: "sessions (db w) (id_session s) = Some s" using Some by simp
    show ?thesis
    proof (cases "state s = USER_COMMITTED")
      case True
      then show ?thesis using StartAIGeneration Some ids step.generate [OF here True]
        by (simp add: start_ai_generation_ok)
    next
      case False
      then show ?thesis using StartAIGeneration Some
        by (simp add: start_ai_generation_gate step.stay)
    qed
  qed
next
  case (CommitAIMessage k body m now)
  show ?thesis
  proof (cases "sessions (db w) k")
    case None
    then show ?thesis using CommitAIMessage
      by (simp add: commit_ai_message_missing step.stay)
  next
    case (Some s)
    then have ids: "id_session s = k" using inv by (rule store_inv_id [rotated])
    then have here: "sessions (db w) (id_session s) = Some s" using Some by simp
    show ?thesis
    proof (cases "state s = AI_GENERATING")
      case True
      then show ?thesis using CommitAIMessage Some ids step.commit [OF here True]
        by (simp add: commit_ai_message_ok)
    next
      case False
      then show ?thesis using CommitAIMessage Some
        by (simp add: commit_ai_message_gate step.stay)
    qed
  qed
next
  case (MarkError k etxt now)
  show ?thesis
  proof (cases "sessions (db w) k")
    case None
    then show ?thesis using MarkError
      by (simp add: mark_error_missing step.stay)
  next
    case (Some s)
    then have ids: "id_session s = k" using inv by (rule store_inv_id [rotated])
    then have here: "sessions (db w) (id_session s) = Some s" using Some by simp
    show ?thesis
    proof (cases "ERROR \<in> set (VALID_TRANSITIONS (state s))")
      case True
      then show ?thesis using MarkError Some ids step.mark [OF here True]
        by (simp add: mark_error_ok)
    next
      case False
      then show ?thesis using MarkError Some
        by (simp add: mark_error_rejected step.stay)
    qed
  qed
next
  case (ProcessSession k m now)
  show ?thesis
  proof (cases "sessions (db w) k")
    case None
    then show ?thesis using ProcessSession
      by (simp add: process_session_missing step.stay)
  next
    case (Some s)
    then have ids: "id_session s = k" using inv by (rule store_inv_id [rotated])
    then have here: "sessions (db w) (id_session s) = Some s" using Some by simp
    show ?thesis
    proof (cases "state s = USER_COMMITTED")
      case False
      then show ?thesis using ProcessSession Some ids
        by (auto simp: process_session_wrong_state intro: step.stay step.fail_early [OF here])
    next
      case True
      show ?thesis
      proof (cases "messages s \<noteq> [] \<and> role (last (messages s)) = ''user''")
        case True
        then show ?thesis
          using ProcessSession Some ids \<open>state s = USER_COMMITTED\<close>
            step.complete [OF here \<open>state s = USER_COMMITTED\<close>]
          by (simp add: process_session_completes)
      next
        case False
        then have "messages s = [] \<or> role (last (messages s)) \<noteq> ''user''" by blast
        then show ?thesis
          using ProcessSession Some ids \<open>state s = USER_COMMITTED\<close>
            step.fail_late [OF here \<open>state s = USER_COMMITTED\<close>]
          by (simp add: process_session_no_user_message)
      qed
    qed
  qed
qed

lemma walk_snoc:
  "walk h \<Longrightarrow> h \<noteq> [] \<Longrightarrow> t \<in> set (VALID_TRANSITIONS (last h)) \<Longrightarrow> walk (h @ [t])"
  by (induction h rule: walk.induct) auto

lemma states_of_snoc:
  "states_of k (obs @ [(k', st)]) = (if k = k' then states_of k obs @ [st] else states_of k obs)"
  by (simp add: states_of_def)

lemma session_ok_other:
  "k \<noteq> id_session s \<Longrightarrow> session_ok (stored d s) k = session_ok d k"
  by (simp add: session_ok_def states_of_snoc)

lemma session_ok_same:
  "session_ok (stored d s) (id_session s) =
     (let h = states_of (id_session s) (observed d) @ [state s] in
        walk h \<and> hd h = IDLE \<and> (state s = ERROR \<or> error_message s = None))"
  by (simp add: session_ok_def states_of_snoc Let_def)

lemma session_ok_Some:
  assumes "session_ok d k" "sessions d k = Some s"
  shows "id_session s = k" "states_of k (observed d) \<noteq> []"
    "last (states_of k (observed d)) = state s" "state s = ERROR \<or> error_message s = None"
    "walk (states_of k (observed d))" "hd (states_of k (observed d)) = IDLE"
  using assms by (auto simp: session_ok_def Let_def)

lemma session_ok_None:
  assumes "session_ok d k" "sessions d k = None"
  shows "states_of k (observed d) = []"
  using assms by (simp add: session_ok_def Let_def)

lemma store_inv_write:
  assumes inv: "store_inv d" and old: "sessions d (id_session s) = Some s0"
    and edge: "state s \<in> set (VALID_TRANSITIONS (state s0))"
    and err: "state s = ERROR \<or> error_message s = None"
  shows "store_inv (stored d s)"
  unfolding store_inv_def
proof
  fix k
  have ok: "session_ok d k" for k using inv by (simp add: store_inv_def)
  show "session_ok (stored d s) k"
  proof (cases "k = id_session s")
    case False
    then show ?thesis using ok [of k] by (simp add: session_ok_other)
  next
    case True
    let ?h = "states_of (id_session s) (observed d)"
    note h = session_ok_Some [OF ok old]
    have w: "walk (?h @ [state s])" using h(2,3,5) edge by (intro walk_snoc) simp_all
    have "hd (?h @ [state s]) = IDLE" using h(2,6) by simp
    then have "session_ok (stored d s) (id_session s)"
      unfolding session_ok_same Let_def using w err by blast
    then show ?thesis using True by simp
  qed
qed

lemma store_inv_create:
  assumes inv: "store_inv d" and new: "sessions d (id_session s) = None"
    and idle: "state s = IDLE" and err: "error_message s = None"
  shows "store_inv (stored d s)"
  unfolding store_inv_def
proof
  fix k
  have ok: "session_ok d k" for k using inv by (simp add: store_inv_def)
  show "session_ok (stored d s) k"
  proof (cases "k = id_session s")
    case False
    then show ?thesis using ok [of k] by (simp add: session_ok_other)
  next
    case True
    have "states_of (id_session s) (observed d) = []" using session_ok_None [OF ok new] .
    then have "session_ok (stored d s) (id_session s)"
      unfolding session_ok_same Let_def using idle err by simp
    then show ?thesis using True by simp
  qed
qed

lemma db_accepted [simp]:
  "db (accepted w s text m now) =
     stored (stored (db w) (moved s USER_WRITING now)) (submitted s text m now)"
  by (simp add: accepted_def)

lemma db_failed_cycle [simp]:
  "db (failed_cycle w s txt now) = stored (db w) (errored s txt now)"
  by (simp add: failed_cycle_def)

lemma db_completed_cycle [simp]:
  "db (completed_cycle w s m now) =
     stored (stored (stored (db w) (moved s AI_GENERATING now))
        (committed (moved s AI_GENERATING now)
           (generate_mock_response (content (last (messages s)))) m now))
        (answered s m now)"
  by (simp add: completed_cycle_def Let_def answered_def)

lemma answered_simps [simp]:
  "state (answered s m now) = IDLE"
  "id_session (answered s m now) = id_session s"
  "messages (answered s m now) =
     messages s @ [ai_msg m (generate_mock_response (content (last (messages s)))) now]"
  "retry_count (answered s m now) = retry_count s"
  "error_message (answered s m now) = None"
  "user_id (answered s m now) = user_id s"
  by (simp_all add: answered_def)

lemma store_inv_accepted:
  assumes "store_inv d" "sessions d (id_session s) = Some s" "state s = IDLE"
  shows "store_inv (stored (stored d (moved s USER_WRITING now)) (submitted s text m now))"
proof -
  have 1: "store_inv (stored d (moved s USER_WRITING now))"
    using assms by (intro store_inv_write [where ?s0.0 = s]) auto
  show ?thesis
    by (rule store_inv_write [OF 1, where ?s0.0 = "moved s USER_WRITING now"]) auto
qed

lemma step_store_inv:
  assumes "step w w'" "store_inv (db w)"
  shows "store_inv (db w')"
  using assms
proof (cases rule: step.cases)
  case stay
  then show ?thesis using assms by simp
next
  case (accept s body m now)
  then show ?thesis using assms(2) by (simp add: store_inv_accepted)
next
  case (create n uid now body m)
  let ?f = "fresh_session n uid now"
  have 1: "store_inv (stored (db w) ?f)"
    using assms(2) create by (intro store_inv_create) auto
  have "store_inv (stored (stored (stored (db w) ?f) (moved ?f USER_WRITING now))
           (submitted ?f body m now))"
    by (rule store_inv_accepted [OF 1]) auto
  then show ?thesis using create by simp
next
  case (generate s now)
  then show ?thesis using assms(2)
    by (auto intro!: store_inv_write [where ?s0.0 = s])
next
  case (commit s body m now)
  have 1: "store_inv (stored (db w) (committed s body m now))"
    using assms(2) commit by (intro store_inv_write [where ?s0.0 = s]) auto
  have "store_inv (stored (stored (db w) (committed s body m now))
                       (moved (committed s body m now) IDLE now))"
    by (rule store_inv_write [OF 1, where ?s0.0 = "committed s body m now"]) auto
  then show ?thesis using commit by simp
next
  case (mark s etxt now)
  then show ?thesis using assms(2)
    by (auto intro!: store_inv_write [where ?s0.0 = s])
next
  case (fail_early s etxt now)
  then show ?thesis using assms(2)
    by (auto intro!: store_inv_write [where ?s0.0 = s])
next
  case (fail_late s now etxt)
  have 1: "store_inv (stored (db w) (moved s AI_GENERATING now))"
    using assms(2) fail_late by (intro store_inv_write [where ?s0.0 = s]) auto
  have "store_inv (stored (stored (db w) (moved s AI_GENERATING now))
     (errored (moved s AI_GENERATING now) etxt now))"
    by (rule store_inv_write [OF 1, where ?s0.0 = "moved s AI_GENERATING now"]) auto
  then show ?thesis using fail_late by simp
next
  case (complete s m now)
  let ?r = "generate_mock_response (content (last (messages s)))"
  let ?s1 = "moved s AI_GENERATING now"
  let ?s2 = "committed ?s1 ?r m now"
  have 1: "store_inv (stored (db w) ?s1)"
    using assms(2) complete by (intro store_inv_write [where ?s0.0 = s]) auto
  have 2: "store_inv (stored (stored (db w) ?s1) ?s2)"
    by (rule store_inv_write [OF 1, where ?s0.0 = ?s1]) auto
  have "store_inv (stored (stored (stored (db w) ?s1) ?s2) (answered s m now))"
    by (rule store_inv_write [OF 2, where ?s0.0 = ?s2]) auto
  then show ?thesis using complete by simp
qed

lemma store_inv_init: "store_inv (db init_world)"
  by (simp add: store_inv_def session_ok_def init_world_def states_of_def)

lemma run_snoc: "run w (ops @ [op]) = exec (run w ops) op"
  by (simp add: run_def)

lemma store_inv_run: "store_inv (db (run init_world ops))"
proof (induction ops rule: rev_induct)
  case Nil
  show ?case by (simp add: run_def store_inv_init)
next
  case (snoc op ops)
  show ?case unfolding run_snoc
    by (rule step_store_inv [OF step_exec [OF snoc] snoc])
qed

lemma step_error:
  assumes "step w w'" "sessions (db w') k = Some s'" "state s' = ERROR"
  shows "case sessions (db w) k of
           None \<Rightarrow> False
         | Some s \<Rightarrow> (state s = ERROR \<and> s' = s) \<or>
                     (state s \<noteq> ERROR \<and> retry_count s' = retry_count s + 1)"
  using assms by (cases rule: step.cases) (auto split: if_splits)

text \<open>
  C6. In every run, the states the store has held for a session, in order, are a walk on
  the transition table: each state is followed by one of its allowed targets. The walk
  starts at \<open>IDLE\<close> and ends at the state the stored session has now; an id
  without a session has no history. (That a state is one of the seven enumerated states
  is the type of \<open>state\<close>.)
\<close>

theorem walk_on_transition_table:
  "walk (states_of k (observed (db (run init_world ops)))) \<and>
   (case sessions (db (run init_world ops)) k of
      None \<Rightarrow> states_of k (observed (db (run init_world ops))) = []
    | Some s \<Rightarrow> hd (states_of k (observed (db (run init_world ops)))) = IDLE \<and>
                last (states_of k (observed (db (run init_world ops)))) = state s)"
proof -
  have "session_ok (db (run init_world ops)) k"
    using store_inv_run [of ops] by (simp add: store_inv_def)
  then show ?thesis
    by (auto simp: session_ok_def Let_def split: option.splits)
qed

text \<open>
  C3. Whenever a call in a run leaves a session in the error state, the session was
  in the store before the call, and either it was in the error state already and the
  call has not changed it, or it has entered the error state and its retry counter is
  one more than before.
\<close>

theorem retry_incremented_on_error:
  assumes "sessions (db (exec (run init_world ops) op)) k = Some s'" "state s' = ERROR"
  shows "case sessions (db (run init_world ops)) k of
           None \<Rightarrow> False
         | Some s \<Rightarrow> (state s = ERROR \<and> s' = s) \<or>
                     (state s \<noteq> ERROR \<and> retry_count s' = retry_count s + 1)"
  by (rule step_error [OF step_exec [OF store_inv_run] assms])

text \<open>
  C9. In every run, a stored session whose state is not the error state has no error
  description; and every successful \<^verbatim>\<open>update_state\<close> to a state other than the error
  state, with no error description supplied (none, or an empty one), leaves the session
  with no error description.
\<close>

theorem no_error_text_outside_error:
  "(sessions (db (run init_world ops)) k = Some s \<longrightarrow> state s \<noteq> ERROR \<longrightarrow>
      error_message s = None) \<and>
   (update_state s0 t e now = Inr s1 \<longrightarrow> t \<noteq> ERROR \<longrightarrow> \<not> truthy e \<longrightarrow>
      error_message s1 = None)"
proof -
  have "session_ok (db (run init_world ops)) k"
    using store_inv_run [of ops] by (simp add: store_inv_def)
  then have 1: "sessions (db (run init_world ops)) k = Some s \<longrightarrow> state s \<noteq> ERROR \<longrightarrow>
      error_message s = None"
    using session_ok_Some(4) by blast
  have 2: "update_state s0 t e now = Inr s1 \<longrightarrow> t \<noteq> ERROR \<longrightarrow> \<not> truthy e \<longrightarrow>
      error_message s1 = None"
    by (auto simp: update_state_def Let_def split: if_splits)
  show ?thesis using 1 2 by blast
qed

lemma sessions_init: "sessions (db init_world) k = None"
  by (simp add: init_world_def)

lemma observed_init: "observed (db init_world) = []"
  by (simp add: init_world_def)

lemma run_example_ops:
  "run init_world example_ops =
     accepted (init_world\<lparr>db := stored (db init_world) (fresh_session ''s1'' ''u'' 1)\<rparr>)
       (fresh_session ''s1'' ''u'' 1) ''Hello!'' ''m1'' 1"
  by (simp add: run_def example_ops_def handle_user_message_new sessions_init)

lemma sessions_example:
  "sessions (db (run init_world example_ops)) k =
     (if k = ''s1'' then Some example_session else None)"
  by (simp add: run_example_ops example_session_def sessions_init)

theorem retry_incremented_on_error_witness:
  "sessions (db (exec (run init_world example_ops) (MarkError ''s1'' ''boom'' 2))) ''s1'' =
     Some (errored example_session ''boom'' 2) \<and>
   state (errored example_session ''boom'' 2) = ERROR \<and>
   sessions (db (run init_world example_ops)) ''s1'' = Some example_session \<and>
   state example_session \<noteq> ERROR \<and>
   retry_count (errored example_session ''boom'' 2) = retry_count example_session + 1"
proof -
  have old: "sessions (db (run init_world example_ops)) ''s1'' = Some example_session"
    by (simp add: sessions_example)
  have st: "state example_session = USER_COMMITTED" "id_session example_session = ''s1''"
    by (simp_all add: example_session_def)
  have "mark_error (run init_world example_ops) ''s1'' ''boom'' 2 =
      ((run init_world example_ops)\<lparr>db := stored (db (run init_world example_ops))
         (errored example_session ''boom'' 2)\<rparr>, Inr (errored example_session ''boom'' 2))"
    by (rule mark_error_ok [OF old]) (simp_all add: st)
  then have new: "sessions (db (exec (run init_world example_ops) (MarkError ''s1'' ''boom'' 2)))
      ''s1'' = Some (errored example_session ''boom'' 2)"
    by (simp add: st)
  have err: "state (errored example_session ''boom'' 2) = ERROR" by simp
  show ?thesis
    using retry_incremented_on_error [OF new err] old new st by simp
qed

theorem no_error_text_outside_error_witness:
  "sessions (db (run init_world example_ops)) ''s1'' = Some example_session \<and>
   state example_session \<noteq> ERROR \<and> error_message example_session = None \<and>
   update_state (errored example_session ''boom'' 2) IDLE None 3 =
     Inr (moved (errored example_session ''boom'' 2) IDLE 3) \<and>
   IDLE \<noteq> ERROR \<and> \<not> truthy None \<and>
   error_message (errored example_session ''boom'' 2) = Some ''boom'' \<and>
   error_message (moved (errored example_session ''boom'' 2) IDLE 3) = None"
proof -
  have old: "sessions (db (run init_world example_ops)) ''s1'' = Some example_session"
    by (simp add: sessions_example)
  have st: "state example_session = USER_COMMITTED"
    by (simp add: example_session_def)
  have mv: "update_state (errored example_session ''boom'' 2) IDLE None 3 =
     Inr (moved (errored example_session ''boom'' 2) IDLE 3)"
    by (rule update_state_moves) simp_all
  show ?thesis
    using no_error_text_outside_error [of example_ops "''s1''" example_session
        "errored example_session ''boom'' 2" IDLE None 3
        "moved (errored example_session ''boom'' 2) IDLE 3"] old st mv
    by simp
qed

theorem walk_on_transition_table_witness:
  "walk (states_of ''s1'' (observed (db (run init_world example_ops)))) \<and>
   states_of ''s1'' (observed (db (run init_world example_ops))) =
     [IDLE, USER_WRITING, USER_COMMITTED]"
proof -
  have "states_of ''s1'' (observed (db (run init_world example_ops))) =
     [IDLE, USER_WRITING, USER_COMMITTED]"
    by (simp add: run_example_ops states_of_def observed_init)
  then show ?thesis
    using walk_on_transition_table [of "''s1''" example_ops] by simp
qed

lemma sent_to_publish_all:
  "sent_to (publish_all b evs) k = sent_to b k @ map snd (filter (\<lambda>p. fst p = k) evs)"
  by (simp add: sent_to_def sent_publish_all)

lemma filter_own_events:
  "map snd (filter (\<lambda>p. fst p = k) (map (\<lambda>t. (k, f t)) ts)) = map f ts"
  by (induction ts) simp_all

lemma sent_to_quiet_stream:
  "sent_to (quiet_stream b k r) k =
     sent_to b k @ map token_event (tokens_from 0 (split_str r)) @ [message_end_event]"
  by (simp add: quiet_stream_def sent_to_publish_all filter_own_events)

lemma queue_of_quiet_stream:
  "queue_of (quiet_stream b k r) k =
     queue_of b k @ map token_event (tokens_from 0 (split_str r)) @ [message_end_event]"
  by (simp add: quiet_stream_def queue_of_publish_all filter_own_events)

lemma cycle_events_completed:
  "cycle_events w (completed_cycle w s m now) (id_session s) =
     map token_event (tokens_from 0 (split_str (generate_mock_response (content (last (messages s))))))
       @ [message_end_event, commit_done_event (id_session s)]"
  by (simp add: cycle_events_def completed_cycle_def Let_def sent_to_send_event
      sent_to_quiet_stream)







section \<open>A generation cycle among other tasks\<close>

lemma keys_ok_stored: "keys_ok d \<Longrightarrow> keys_ok (stored d s)"
  by (simp add: keys_ok_def)

lemma store_inv_keys_ok: "store_inv d \<Longrightarrow> keys_ok d"
  unfolding keys_ok_def using store_inv_id by blast

lemma keys_ok_delete: "keys_ok d \<Longrightarrow> keys_ok (delete_session d k)"
  by (simp add: keys_ok_def delete_session_def)

lemma keys_okD: "keys_ok d \<Longrightarrow> sessions d k = Some s \<Longrightarrow> id_session s = k"
  by (simp add: keys_ok_def)

lemma handle_user_message_shapes:
  assumes ok: "keys_ok (db w)"
  shows "fst (handle_user_message w uid body sid n m now) = w \<or>
         (\<exists>s. sessions (db w) (id_session s) = Some s \<and> state s = IDLE \<and>
              fst (handle_user_message w uid body sid n m now) = accepted w s body m now) \<or>
         (sessions (db w) n = None \<and>
          fst (handle_user_message w uid body sid n m now) =
            accepted (w\<lparr>db := stored (db w) (fresh_session n uid now)\<rparr>)
              (fresh_session n uid now) body m now)"
proof (cases "truthy sid")
  case True
  then obtain k where sid: "sid = Some k" and k: "k \<noteq> []" by (cases sid) auto
  show ?thesis
  proof (cases "sessions (db w) k")
    case None
    then show ?thesis using sid k by (simp add: handle_user_message_missing)
  next
    case (Some s)
    then have ids: "id_session s = k" using ok by (simp add: keys_okD)
    show ?thesis
    proof (cases "user_id s = uid")
      case False
      then show ?thesis using sid k Some by (simp add: handle_user_message_not_owner)
    next
      case True
      have here: "sessions (db w) (id_session s) = Some s" using Some ids by simp
      show ?thesis
      proof (cases "state s = IDLE")
        case idle: True
        have "fst (handle_user_message w uid body sid n m now) = accepted w s body m now"
          using sid k Some ids True idle by (simp add: handle_user_message_existing)
        then show ?thesis using here idle by blast
      next
        case False
        then have "fst (handle_user_message w uid body sid n m now) = w"
          using sid k Some ids True by (simp add: handle_user_message_existing)
        then show ?thesis by simp
      qed
    qed
  qed
next
  case False
  show ?thesis
  proof (cases "sessions (db w) n")
    case None
    then show ?thesis using False by (simp add: handle_user_message_new)
  next
    case (Some s)
    then show ?thesis using False by (simp add: handle_user_message_collision)
  qed
qed

lemma sent_enqueue_session: "sent (enqueue_session b k) = sent b"
  by (simp add: enqueue_session_def)

lemma sent_accepted: "sent (brk (accepted w s body m now)) = sent (brk w)"
  by (simp add: accepted_def sent_enqueue_session)

lemma sent_get_session_events: "sent (fst (get_session_events b k)) = sent b"
  by (simp add: get_session_events_def Let_def)

lemma sent_take_event: "sent (take_event b k) = sent b"
  by (simp add: take_event_def split: option.splits list.splits)

lemma sent_cleanup: "sent (cleanup_session_queue b k) = sent b"
  by (simp add: cleanup_session_queue_def)

lemma env_step_keeps:
  assumes ok: "keys_ok (db w)" and here: "sessions (db w) k = Some s"
    and st: "state s = AI_GENERATING" and nd: "op \<noteq> Delete k"
  shows "keys_ok (db (env_step w op)) \<and> sessions (db (env_step w op)) k = Some s \<and>
         sent (brk (env_step w op)) = sent (brk w)"
proof (cases op)
  case (Submit uid body sid n m now)
  let ?w' = "fst (handle_user_message w uid body sid n m now)"
  have "keys_ok (db ?w') \<and> sessions (db ?w') k = Some s \<and> sent (brk ?w') = sent (brk w)"
    using handle_user_message_shapes [OF ok, of uid body sid n m now]
  proof (elim disjE exE conjE)
    assume "?w' = w"
    then show ?thesis using ok here by simp
  next
    fix s'
    assume acc: "sessions (db w) (id_session s') = Some s'" "state s' = IDLE"
        "?w' = accepted w s' body m now"
    have "id_session s' \<noteq> k" using acc(1,2) here st by auto
    then show ?thesis using acc(3) ok here
      by (simp add: keys_ok_stored sent_accepted)
  next
    assume new: "sessions (db w) n = None"
        "?w' = accepted (w\<lparr>db := stored (db w) (fresh_session n uid now)\<rparr>)
              (fresh_session n uid now) body m now"
    have "n \<noteq> k" using new(1) here by auto
    then show ?thesis using new(2) ok here
      by (simp add: keys_ok_stored sent_accepted)
  qed
  then show ?thesis using Submit by simp
next
  case (Delete k')
  then have "k' \<noteq> k" using nd by simp
  then show ?thesis using Delete ok here
    by (simp add: keys_ok_delete) (simp add: delete_session_def)
next
  case (Subscribe k')
  then show ?thesis using ok here by (simp add: sent_get_session_events)
next
  case (Take k')
  then show ?thesis using ok here by (simp add: sent_take_event)
next
  case (Release k')
  then show ?thesis using ok here by (simp add: sent_cleanup)
qed

lemma env_steps_keep:
  assumes "keys_ok (db w)" "sessions (db w) k = Some s" "state s = AI_GENERATING"
    "Delete k \<notin> set ops"
  shows "keys_ok (db (foldl env_step w ops)) \<and> sessions (db (foldl env_step w ops)) k = Some s \<and>
         sent (brk (foldl env_step w ops)) = sent (brk w)"
  using assms
proof (induction ops arbitrary: w)
  case Nil
  then show ?case by simp
next
  case (Cons op ops)
  have nd: "op \<noteq> Delete k" "Delete k \<notin> set ops" using Cons.prems(4) by auto
  note one = env_step_keeps [OF Cons.prems(1,2,3) nd(1)]
  have "keys_ok (db (foldl env_step (env_step w op) ops)) \<and>
        sessions (db (foldl env_step (env_step w op) ops)) k = Some s \<and>
        sent (brk (foldl env_step (env_step w op) ops)) = sent (brk (env_step w op))"
    using one Cons.prems(3) nd(2) by (intro Cons.IH) simp_all
  then show ?case using one by simp
qed

lemma sleep_keeps:
  assumes "keys_ok (db w)" "sessions (db w) k = Some s" "state s = AI_GENERATING"
    "Delete k \<notin> set (concat iv)"
  shows "keys_ok (db (sleep w iv)) \<and> sessions (db (sleep w iv)) k = Some s \<and>
         sent (brk (sleep w iv)) = sent (brk w)"
proof (cases iv)
  case Nil
  then show ?thesis using assms by (simp add: sleep_def)
next
  case (Cons ops later)
  then have "Delete k \<notin> set ops" using assms(4) by simp
  from env_steps_keep [OF assms(1,2,3) this] show ?thesis using Cons by (simp add: sleep_def)
qed

lemma no_delete_tl: "Delete k \<notin> set (concat iv) \<Longrightarrow> Delete k \<notin> set (concat (tl iv))"
  by (cases iv) simp_all

lemma stream_words_keeps:
  assumes "keys_ok (db w)" "sessions (db w) k = Some s" "state s = AI_GENERATING"
    "Delete k \<notin> set (concat iv)"
  shows "keys_ok (db (stream_words w k i ws iv)) \<and>
         sessions (db (stream_words w k i ws iv)) k = Some s \<and>
         sent (brk (stream_words w k i ws iv)) =
           sent (brk w) @ map (\<lambda>t. (k, token_event t)) (tokens_from i ws)"
  using assms
proof (induction ws arbitrary: w i iv)
  case Nil
  then show ?case by simp
next
  case (Cons word rest)
  let ?t = "if i = 0 then word else '' '' @ word"
  let ?w1 = "w\<lparr>brk := send_event (brk w) k (token_event ?t)\<rparr>"
  have a: "keys_ok (db ?w1)" "sessions (db ?w1) k = Some s" using Cons.prems by simp_all
  note sl = sleep_keeps [OF a Cons.prems(3,4)]
  have nd: "Delete k \<notin> set (concat (tl iv))" using Cons.prems(4) by (rule no_delete_tl)
  have r: "keys_ok (db (stream_words (sleep ?w1 iv) k (Suc i) rest (tl iv))) \<and>
         sessions (db (stream_words (sleep ?w1 iv) k (Suc i) rest (tl iv))) k = Some s \<and>
         sent (brk (stream_words (sleep ?w1 iv) k (Suc i) rest (tl iv))) =
           sent (brk (sleep ?w1 iv)) @ map (\<lambda>t. (k, token_event t)) (tokens_from (Suc i) rest)"
    using sl Cons.prems(3) nd by (intro Cons.IH) simp_all
  have e: "stream_words w k i (word # rest) iv =
      stream_words (sleep ?w1 iv) k (Suc i) rest (tl iv)"
    by (simp add: Let_def token_event_def)
  show ?case unfolding e using r sl by (simp add: sent_send_event)
qed

lemma stream_response_keeps:
  assumes "keys_ok (db w)" "sessions (db w) k = Some s" "state s = AI_GENERATING"
    "Delete k \<notin> set (concat iv)"
  shows "keys_ok (db (stream_response w k r iv)) \<and>
         sessions (db (stream_response w k r iv)) k = Some s \<and>
         sent (brk (stream_response w k r iv)) =
           sent (brk w) @ map (\<lambda>t. (k, token_event t)) (tokens_from 0 (split_str r)) @
             [(k, message_end_event)]"
  using stream_words_keeps [OF assms, of 0 "split_str r"]
  by (simp add: stream_response_def Let_def sent_send_event message_end_event_def)


lemma cycle_completes_among_others:
  assumes ok: "keys_ok (db w)" and here: "sessions (db w) k = Some s"
    and st: "state s = USER_COMMITTED"
    and msg: "messages s \<noteq> []" "role (last (messages s)) = ''user''"
    and nd: "Delete k \<notin> set (concat iv)"
  shows "sessions (db (process_session w k m now iv)) k = Some (answered s m now) \<and>
         sent (brk (process_session w k m now iv)) =
           sent (brk w) @
           map (\<lambda>t. (k, token_event t))
             (tokens_from 0 (split_str (generate_mock_response (content (last (messages s)))))) @
           [(k, message_end_event), (k, commit_done_event k)]"
proof -
  let ?r = "generate_mock_response (content (last (messages s)))"
  let ?s1 = "moved s AI_GENERATING now"
  let ?w1 = "w\<lparr>db := stored (db w) ?s1\<rparr>"
  let ?w2 = "stream_response ?w1 k ?r iv"
  have ids: "id_session s = k" using ok here by (rule keys_okD)
  have sta: "start_ai_generation w k now = (?w1, Inr ?s1)"
    using here ids st by (simp add: start_ai_generation_ok)
  have a: "keys_ok (db ?w1)" "sessions (db ?w1) k = Some ?s1" "state ?s1 = AI_GENERATING"
    using ok ids by (simp_all add: keys_ok_stored)
  note k2 = stream_response_keeps [OF a nd, of ?r]
  have c: "commit_ai_message ?w2 k ?r m now =
        (?w2\<lparr>db := stored (stored (db ?w2) (committed ?s1 ?r m now))
                      (moved (committed ?s1 ?r m now) IDLE now)\<rparr>,
            Inr (moved (committed ?s1 ?r m now) IDLE now))"
    using k2 by (intro commit_ai_message_ok) (simp_all add: ids)
  have t: "try_process_session w k m now iv =
     Inr (?w2\<lparr>db := stored (stored (db ?w2) (committed ?s1 ?r m now))
                      (moved (committed ?s1 ?r m now) IDLE now),
              brk := send_event (brk ?w2) k (commit_done_event k)\<rparr>)"
    using msg c by (simp add: try_process_session_def sta Let_def commit_done_event_def)
  have p: "process_session w k m now iv =
     ?w2\<lparr>db := stored (stored (db ?w2) (committed ?s1 ?r m now))
                      (moved (committed ?s1 ?r m now) IDLE now),
              brk := send_event (brk ?w2) k (commit_done_event k)\<rparr>"
    by (simp add: process_session_def t)
  have "sessions (db (process_session w k m now iv)) k = Some (answered s m now)"
    unfolding p by (simp add: ids answered_def)
  moreover have "sent (brk (process_session w k m now iv)) =
           sent (brk w) @ map (\<lambda>t. (k, token_event t)) (tokens_from 0 (split_str ?r)) @
           [(k, message_end_event), (k, commit_done_event k)]"
    unfolding p using k2 by (simp add: sent_send_event)
  ultimately show ?thesis by simp
qed





lemma example_no_delete: "Delete ''s1'' \<notin> set (concat example_interference)"
  by (simp add: example_interference_def)








lemma sessions_accepted:
  "sessions (db (accepted w s body m now)) k =
     (if k = id_session s then Some (submitted s body m now) else sessions (db w) k)"
  by simp

lemma user_msg_simps [simp]:
  "role (user_msg m body now) = ''user''" "content (user_msg m body now) = body"
  by (simp_all add: user_msg_def)

lemma turn_after_submit:
  assumes "sessions (db w) (id_session s) = Some s" "state s = IDLE"
  shows "process_session (accepted w s body m1 t1) (id_session s) m2 t2 [] =
           completed_cycle (accepted w s body m1 t1) (submitted s body m1 t1) m2 t2"
  by (rule process_session_completes [where s = "submitted s body m1 t1", simplified])
     (simp_all add: sessions_accepted)

lemma sessions_completed_cycle:
  "sessions (db (completed_cycle w s m now)) (id_session s) = Some (answered s m now)"
  by simp

lemma full_turn_core:
  assumes "keys_ok (db w)" "sessions (db w) (id_session s) = Some s" "state s = IDLE"
    "Delete (id_session s) \<notin> set (concat iv)"
  shows "sessions (db (process_session (accepted w s body m1 t1) (id_session s) m2 t2 iv))
           (id_session s) = Some (answered (submitted s body m1 t1) m2 t2)"
proof -
  have ok: "keys_ok (db (accepted w s body m1 t1))"
    using assms(1) by (simp add: keys_ok_stored)
  have here: "sessions (db (accepted w s body m1 t1)) (id_session s) =
      Some (submitted s body m1 t1)"
    by (simp add: sessions_accepted)
  from cycle_completes_among_others [OF ok here _ _ _ assms(4), of m2 t2]
  show ?thesis by simp
qed

lemma answered_submitted:
  "state (answered (submitted s body m1 t1) m2 t2) = IDLE"
  "messages (answered (submitted s body m1 t1) m2 t2) =
     messages s @ [user_msg m1 body t1, ai_msg m2 (generate_mock_response body) t2]"
  by simp_all

text \<open>
  C7. When \<^verbatim>\<open>handle_user_message\<close> succeeds in a world of a run, the session it
  returns is the stored one, and the worker's generation cycle on it that follows,
  whatever the other tasks do during its sleeps short of deleting the session, leaves
  the session in state \<open>IDLE\<close> with exactly two messages more than before the
  submission: the user's message, then the assistant's answer to it.
\<close>

theorem full_turn_adds_two_messages:
  assumes "handle_user_message (run init_world ops) uid body sid n m1 t1 = (w1, Inr s1)"
    and "Delete (id_session s1) \<notin> set (concat iv)"
  shows "map_option state
           (sessions (db (process_session w1 (id_session s1) m2 t2 iv)) (id_session s1)) = Some IDLE \<and>
         map_option messages
           (sessions (db (process_session w1 (id_session s1) m2 t2 iv)) (id_session s1)) =
           Some (messages_before (run init_world ops) sid @
                 [user_msg m1 body t1, ai_msg m2 (generate_mock_response body) t2]) \<and>
         map_option (\<lambda>s. length (messages s))
           (sessions (db (process_session w1 (id_session s1) m2 t2 iv)) (id_session s1)) =
           Some (length (messages_before (run init_world ops) sid) + 2)"
proof -
  let ?w = "run init_world ops"
  have inv: "store_inv (db ?w)" by (rule store_inv_run)
  have ok: "keys_ok (db ?w)" by (rule store_inv_keys_ok [OF inv])
  have "\<exists>w0 s. keys_ok (db w0) \<and> sessions (db w0) (id_session s) = Some s \<and> state s = IDLE \<and>
          w1 = accepted w0 s body m1 t1 \<and> s1 = submitted s body m1 t1 \<and>
          messages s = messages_before ?w sid"
  proof (cases "truthy sid")
    case True
    then obtain k where sid: "sid = Some k" and k: "k \<noteq> []" by (cases sid) auto
    show ?thesis
    proof (cases "sessions (db ?w) k")
      case None
      then show ?thesis using assms(1) sid k by (simp add: handle_user_message_missing)
    next
      case (Some s)
      then have ids: "id_session s = k" using inv by (rule store_inv_id [rotated])
      show ?thesis
      proof (cases "user_id s = uid")
        case False
        then show ?thesis using assms(1) sid k Some by (simp add: handle_user_message_not_owner)
      next
        case True
        have r: "handle_user_message ?w uid body (Some k) n m1 t1 =
           (if state s = IDLE then (accepted ?w s body m1 t1, Inr (submitted s body m1 t1))
            else if state s = AI_COMMITTED
            then (?w, Inl (ValueError (invalid_transition_msg AI_COMMITTED ERROR)))
            else (?w, Inl (ValueError (cannot_accept_msg (state s)))))"
          using k Some ids True by (rule handle_user_message_existing)
        have idle: "state s = IDLE" using assms(1) r sid by (auto split: if_splits)
        then have "w1 = accepted ?w s body m1 t1" "s1 = submitted s body m1 t1"
          using assms(1) r sid by simp_all
        moreover have "messages s = messages_before ?w sid"
          using sid k Some by (simp add: messages_before_def)
        moreover have "sessions (db ?w) (id_session s) = Some s" using Some ids by simp
        ultimately show ?thesis using idle ok by blast
      qed
    qed
  next
    case False
    show ?thesis
    proof (cases "sessions (db ?w) n")
      case (Some s)
      then show ?thesis using assms(1) False by (simp add: handle_user_message_collision)
    next
      case None
      let ?f = "fresh_session n uid t1"
      let ?wc = "?w\<lparr>db := stored (db ?w) ?f\<rparr>"
      have "w1 = accepted ?wc ?f body m1 t1" "s1 = submitted ?f body m1 t1"
        using assms(1) False None by (simp_all add: handle_user_message_new)
      moreover have "sessions (db ?wc) (id_session ?f) = Some ?f" by simp
      moreover have "keys_ok (db ?wc)" using ok by (simp add: keys_ok_stored)
      moreover have "messages ?f = messages_before ?w sid"
        using False by (simp add: messages_before_def)
      ultimately show ?thesis by (intro exI [of _ ?wc] exI [of _ ?f]) simp
    qed
  qed
  then obtain w0 s where k0: "keys_ok (db w0)"
    and s: "sessions (db w0) (id_session s) = Some s" "state s = IDLE"
    and w1: "w1 = accepted w0 s body m1 t1" and s1: "s1 = submitted s body m1 t1"
    and mb: "messages s = messages_before ?w sid" by blast
  have "sessions (db (process_session w1 (id_session s1) m2 t2 iv)) (id_session s1) =
      Some (answered (submitted s body m1 t1) m2 t2)"
    unfolding w1 s1 using full_turn_core [OF k0 s, of iv body m1 t1 m2 t2] assms(2) [unfolded s1]
    by simp
  then show ?thesis using mb by (simp add: answered_submitted)
qed

lemma handle_example:
  "handle_user_message (run init_world []) ''u'' ''Hello!'' None ''s1'' ''m1'' 1 =
     (run init_world example_ops, Inr example_session)"
  by (simp add: run_example_ops example_session_def)
     (simp add: run_def handle_user_message_new sessions_init)

theorem full_turn_adds_two_messages_witness:
  "handle_user_message (run init_world []) ''u'' ''Hello!'' None ''s1'' ''m1'' 1 =
     (run init_world example_ops, Inr example_session) \<and>
   Delete (id_session example_session) \<notin> set (concat example_interference) \<and>
   map_option state
     (sessions (db (process_session (run init_world example_ops) ''s1'' ''m2'' 2
                     example_interference)) ''s1'') = Some IDLE \<and>
   map_option (\<lambda>s. length (messages s))
     (sessions (db (process_session (run init_world example_ops) ''s1'' ''m2'' 2
                     example_interference)) ''s1'') = Some 2"
proof -
  have i: "id_session example_session = ''s1''" by (simp add: example_session_def)
  have mb: "messages_before (run init_world []) None = []" by (simp add: messages_before_def)
  have nd: "Delete (id_session example_session) \<notin> set (concat example_interference)"
    unfolding i by (rule example_no_delete)
  note t = full_turn_adds_two_messages [OF handle_example nd, of "''m2''" 2, unfolded i mb]
  have a: "map_option state
     (sessions (db (process_session (run init_world example_ops) ''s1'' ''m2'' 2
                     example_interference)) ''s1'') = Some IDLE"
    using t by (rule conjunct1)
  have "map_option (\<lambda>s. length (messages s))
     (sessions (db (process_session (run init_world example_ops) ''s1'' ''m2'' 2
                     example_interference)) ''s1'') = Some (length ([] :: Message list) + 2)"
    using t by (rule conjunct2 [OF conjunct2])
  then have b: "map_option (\<lambda>s. length (messages s))
     (sessions (db (process_session (run init_world example_ops) ''s1'' ''m2'' 2
                     example_interference)) ''s1'') = Some 2"
    by (simp only: list.size add_0)
  show ?thesis by (intro conjI handle_example nd a b)
qed

lemma sessions_example_idle:
  "sessions (db example_idle) ''s1'' = Some (answered example_session ''m2'' 2)"
proof -
  have i: "id_session example_session = ''s1''" by (simp add: example_session_def)
  have "process_session (run init_world example_ops) ''s1'' ''m2'' 2 [] =
      completed_cycle (run init_world example_ops) example_session ''m2'' 2"
    by (rule process_session_completes)
       (simp_all add: sessions_example, simp_all add: example_session_def)
  then have e: "example_idle = completed_cycle (run init_world example_ops) example_session ''m2'' 2"
    by (simp add: example_idle_def run_snoc)
  show ?thesis
    unfolding e
    using sessions_completed_cycle [of "run init_world example_ops" example_session "''m2''" 2]
    by (simp only: i)
qed

text \<open>
  C1, at an idle session. After a full turn the session \<^verbatim>\<open>s1\<close> is in state
  \<open>IDLE\<close>; \<^verbatim>\<open>mark_error\<close> on it raises, since \<open>ERROR\<close> is not an allowed target of
  \<open>IDLE\<close>, and the world, with the session's state, error description and retry
  counter, stays as it was.
\<close>

theorem mark_error_rejected_when_idle:
  "map_option state (sessions (db example_idle) ''s1'') = Some IDLE \<and>
   map_option retry_count (sessions (db example_idle) ''s1'') = Some 0 \<and>
   mark_error example_idle ''s1'' ''boom'' 3 =
     (example_idle, Inl (ValueError (invalid_transition_msg IDLE ERROR))) \<and>
   invalid_transition_msg IDLE ERROR =
     ''Invalid state transition: idle -> error. Valid transitions: ['' @ [quote] @
     ''user_writing'' @ [quote] @ '', '' @ [quote] @ ''timeout'' @ [quote] @ '']''"
proof -
  have "mark_error example_idle ''s1'' ''boom'' 3 =
     (example_idle, Inl (ValueError (invalid_transition_msg
         (state (answered example_session ''m2'' 2)) ERROR)))"
    by (rule mark_error_rejected [OF sessions_example_idle]) simp
  moreover have "invalid_transition_msg IDLE ERROR =
     ''Invalid state transition: idle -> error. Valid transitions: ['' @ [quote] @
     ''user_writing'' @ [quote] @ '', '' @ [quote] @ ''timeout'' @ [quote] @ '']''"
    by (simp add: invalid_transition_msg_def str_list_def repr_str_def)
  moreover have "retry_count example_session = 0" by (simp add: example_session_def)
  ultimately show ?thesis by (simp add: sessions_example_idle)
qed

lemma mark_error_succeeds_iff:
  assumes "sessions (db w) k = Some s" "id_session s = k"
  shows "(\<exists>s'. snd (mark_error w k etxt now) = Inr s') \<longleftrightarrow>
         state s \<in> set [USER_WRITING, USER_COMMITTED, AI_GENERATING]"
proof (cases "ERROR \<in> set (VALID_TRANSITIONS (state s))")
  case True
  then show ?thesis using assms by (cases "state s") (simp_all add: mark_error_ok)
next
  case False
  then show ?thesis using assms by (cases "state s") (simp_all add: mark_error_rejected)
qed

lemma tokens_from_Suc: "tokens_from (Suc i) ws = map ((@) '' '') ws"
  by (induction ws arbitrary: i) simp_all

lemma tokens_from_0: "tokens_from 0 (w # ws) = w # map ((@) '' '') ws"
  by (simp add: tokens_from_Suc)

lemma join_str_Cons: "join_str sep (w # ws) = w @ concat (map ((@) sep) ws)"
  by (induction ws arbitrary: w) simp_all

lemma concat_tokens: "concat (tokens_from 0 ws) = join_str '' '' ws"
  by (cases ws) (simp_all add: tokens_from_Suc join_str_Cons)

lemma token_payloads_cycle:
  "token_payloads (map token_event ts @ [message_end_event, commit_done_event k]) = ts"
  by (simp add: token_payloads_def token_event_def message_end_event_def commit_done_event_def
      comp_def)

lemma streamed_text:
  assumes "sessions (db w) (id_session s) = Some s" "state s = USER_COMMITTED"
    "messages s \<noteq> []" "role (last (messages s)) = ''user''"
  shows "concat (token_payloads
           (cycle_events w (process_session w (id_session s) m now []) (id_session s))) =
         join_str '' '' (split_str (generate_mock_response (content (last (messages s)))))"
proof -
  have "process_session w (id_session s) m now [] = completed_cycle w s m now"
    using assms by (intro process_session_completes) simp_all
  then show ?thesis
    by (simp add: cycle_events_completed token_payloads_cycle concat_tokens)
qed

lemma mock_response_spaces:
  "generate_mock_response ''a  b'' =
     ''I received your message: '' @ [quote] @ ''a  b'' @ [quote] @
     ''. This is a mock response demonstrating token streaming and state management.''"
  by (simp add: generate_mock_response_def lower_def lower_char_def)

lemma split_mock_response_spaces:
  "split_str (''I received your message: '' @ [quote] @ ''a  b'' @ [quote] @
     ''. This is a mock response demonstrating token streaming and state management.'') =
   [''I'', ''received'', ''your'', ''message:'', quote # ''a'', ''b'' @ [quote] @ ''.'',
    ''This'', ''is'', ''a'', ''mock'', ''response'', ''demonstrating'', ''token'',
    ''streaming'', ''and'', ''state'', ''management.'']"
  by (simp add: split_str_def is_space_def quote_def)

lemma run_example_spaces_ops:
  "run init_world example_spaces_ops =
     accepted (init_world\<lparr>db := stored (db init_world) (fresh_session ''s1'' ''u'' 1)\<rparr>)
       (fresh_session ''s1'' ''u'' 1) ''a  b'' ''m1'' 1"
  by (simp add: run_def example_spaces_ops_def handle_user_message_new sessions_init)

lemma sessions_example_spaces:
  "sessions (db (run init_world example_spaces_ops)) ''s1'' = Some example_spaces_session"
  by (simp add: run_example_spaces_ops example_spaces_session_def)

text \<open>
  C4, at a message with two spaces in a row. The user sends \<^verbatim>\<open>a  b\<close>; the mock
  response quotes the message as it is and is committed as the assistant message as it
  is, while the tokens are the words of \<^verbatim>\<open>response.split()\<close>, each after the first
  with one space before it. The concatenated token payloads therefore have one space
  where the committed text has two.
\<close>

theorem streamed_text_differs_from_committed:
  "concat (token_payloads
     (cycle_events (run init_world example_spaces_ops)
        (process_session (run init_world example_spaces_ops) ''s1'' ''m2'' 2 []) ''s1'')) =
     ''I received your message: '' @ [quote] @ ''a b'' @ [quote] @
     ''. This is a mock response demonstrating token streaming and state management.'' \<and>
   map_option (\<lambda>s. content (last (messages s)))
     (sessions (db (process_session (run init_world example_spaces_ops) ''s1'' ''m2'' 2 [])) ''s1'') =
     Some (''I received your message: '' @ [quote] @ ''a  b'' @ [quote] @
     ''. This is a mock response demonstrating token streaming and state management.'') \<and>
   map_option (\<lambda>s. content (last (messages s)))
     (sessions (db (process_session (run init_world example_spaces_ops) ''s1'' ''m2'' 2 [])) ''s1'') \<noteq>
     Some (concat (token_payloads
       (cycle_events (run init_world example_spaces_ops)
          (process_session (run init_world example_spaces_ops) ''s1'' ''m2'' 2 []) ''s1'')))"
proof -
  let ?w = "run init_world example_spaces_ops"
  let ?s = example_spaces_session
  have i: "id_session ?s = ''s1''" "state ?s = USER_COMMITTED" "messages ?s \<noteq> []"
    "role (last (messages ?s)) = ''user''" "content (last (messages ?s)) = ''a  b''"
    by (simp_all add: example_spaces_session_def)
  have here: "sessions (db ?w) (id_session ?s) = Some ?s"
    by (simp only: i sessions_example_spaces)
  have "concat (token_payloads (cycle_events ?w (process_session ?w (id_session ?s) ''m2'' 2 [])
           (id_session ?s))) =
         join_str '' '' (split_str (generate_mock_response (content (last (messages ?s)))))"
    using here i(2,3,4) by (rule streamed_text)
  then have a: "concat (token_payloads (cycle_events ?w (process_session ?w ''s1'' ''m2'' 2 [])
           ''s1'')) =
     ''I received your message: '' @ [quote] @ ''a b'' @ [quote] @
     ''. This is a mock response demonstrating token streaming and state management.''"
    by (simp only: i mock_response_spaces split_mock_response_spaces) (simp add: quote_def)
  have "process_session ?w (id_session ?s) ''m2'' 2 [] = completed_cycle ?w ?s ''m2'' 2"
    using here i(2,3,4) by (intro process_session_completes) simp_all
  then have "sessions (db (process_session ?w ''s1'' ''m2'' 2 [])) ''s1'' =
      Some (answered ?s ''m2'' 2)"
    using sessions_completed_cycle [of ?w ?s "''m2''" 2] by (simp only: i)
  then have b: "map_option (\<lambda>s. content (last (messages s)))
     (sessions (db (process_session ?w ''s1'' ''m2'' 2 [])) ''s1'') =
     Some (generate_mock_response ''a  b'')"
    by (simp add: i ai_msg_def)
  have c: "generate_mock_response ''a  b'' \<noteq>
     ''I received your message: '' @ [quote] @ ''a b'' @ [quote] @
     ''. This is a mock response demonstrating token streaming and state management.''"
    by (simp add: mock_response_spaces)
  show ?thesis
    unfolding a b using c by (simp only: mock_response_spaces option.inject simp_thms)
qed

lemma starts_with_append: "starts_with (x @ b) x"
  by (induction x) simp_all

lemma contains_starts_with: "starts_with s x \<Longrightarrow> contains s x"
  by (cases s) (auto elim: starts_with.elims)

lemma contains_here: "contains (x @ b) x"
  by (rule contains_starts_with) (rule starts_with_append)

lemma contains_skip: "contains s x \<Longrightarrow> contains (a @ s) x"
  by (induction a) simp_all

lemma contains_middle: "contains (a @ x @ b) x"
  by (rule contains_skip) (rule contains_here)

lemma invalid_transition_msg_names:
  "names_transition (invalid_transition_msg cur target) cur target"
proof -
  let ?l = "str_list (map state_value (VALID_TRANSITIONS cur))"
  have 1: "contains (''Invalid state transition: '' @ state_value cur @
      ('' -> '' @ state_value target @ ''. Valid transitions: '' @ ?l)) (state_value cur)"
    by (rule contains_middle)
  have 2: "contains ((''Invalid state transition: '' @ state_value cur @ '' -> '') @
      state_value target @ (''. Valid transitions: '' @ ?l)) (state_value target)"
    by (rule contains_middle)
  have 3: "contains ((''Invalid state transition: '' @ state_value cur @ '' -> '' @
      state_value target @ ''. Valid transitions: '') @ ?l @ []) ?l"
    by (rule contains_middle)
  show ?thesis
    unfolding names_transition_def invalid_transition_msg_def
    using 1 2 3 by (simp only: append_assoc append_Nil2 simp_thms)
qed

lemma cannot_accept_names_current: "contains (cannot_accept_msg st) (state_value st)"
  unfolding cannot_accept_msg_def by (rule contains_middle)

lemma start_ai_generation_fails_unchanged:
  "snd (start_ai_generation w k now) = Inl e \<Longrightarrow> fst (start_ai_generation w k now) = w"
  by (auto simp: start_ai_generation_def get_session_def split: option.splits sum.splits if_splits)

lemma mark_error_fails_unchanged:
  "snd (mark_error w k etxt now) = Inl e \<Longrightarrow> fst (mark_error w k etxt now) = w"
  by (auto simp: mark_error_def get_session_def Let_def split: option.splits sum.splits if_splits)

lemma update_session_twice:
  "update_session d s = Inr d1 \<Longrightarrow> id_session s' = id_session s \<Longrightarrow>
   \<exists>d2. update_session d1 s' = Inr d2"
  by (auto simp: update_session_def domIff split: if_splits)

lemma update_state_id:
  "update_state s t e now = Inr s' \<Longrightarrow> id_session s' = id_session s \<and> state s' = t"
  by (auto simp: update_state_def Let_def split: if_splits)

lemma commit_ai_message_fails_unchanged:
  assumes "snd (commit_ai_message w k body m now) = Inl e"
  shows "fst (commit_ai_message w k body m now) = w"
proof (cases "sessions (db w) k")
  case None
  then show ?thesis by (simp add: commit_ai_message_missing)
next
  case (Some s)
  show ?thesis
  proof (cases "state s = AI_GENERATING")
    case False
    then show ?thesis using Some by (simp add: commit_ai_message_gate)
  next
    case True
    let ?s1 = "add_message s (ai_msg m body now) now"
    let ?s2 = "committed s body m now"
    let ?s3 = "moved ?s2 IDLE now"
    have m1: "update_state ?s1 AI_COMMITTED None now = Inr ?s2"
      using True by (simp add: update_state_moves committed_def)
    have m2: "update_state ?s2 IDLE None now = Inr ?s3"
      by (simp add: update_state_moves)
    show ?thesis
    proof (cases "update_session (db w) ?s2")
      case (Inl e1)
      then show ?thesis using Some True m1
        by (simp add: commit_ai_message_def get_session_def Let_def ai_msg_def)
    next
      case (Inr d1)
      then obtain d2 where "update_session d1 ?s3 = Inr d2"
        using update_session_twice [of "db w" ?s2 d1 ?s3] by auto
      then have "snd (commit_ai_message w k body m now) = Inr ?s3"
        using Some True m1 m2 Inr
        by (simp add: commit_ai_message_def get_session_def Let_def ai_msg_def)
      then show ?thesis using assms by simp
    qed
  qed
qed

lemma try_user_message_fails:
  assumes "try_user_message w s body m now = Inl (e, w1, s1)"
  shows "w1 = w \<and> (s1 = s \<and> state s \<noteq> IDLE \<or>
                    state s1 = USER_WRITING \<and> id_session s1 = id_session s \<and>
                    id_session s \<notin> dom (sessions (db w)))"
proof (cases "update_state s USER_WRITING None now")
  case (Inl e1)
  then have "state s \<noteq> IDLE" by (auto simp: update_state_def)
  then show ?thesis using assms Inl by (simp add: try_user_message_def)
next
  case (Inr s1')
  note u = update_state_id [OF Inr]
  show ?thesis
  proof (cases "update_session (db w) s1'")
    case (Inl e1)
    then have "id_session s \<notin> dom (sessions (db w))"
      using u by (auto simp: update_session_def split: if_splits)
    then show ?thesis using assms Inr Inl u by (simp add: try_user_message_def)
  next
    case d1: (Inr d1)
    let ?s2 = "add_message s1' (user_msg m body now) now"
    have m2: "update_state ?s2 USER_COMMITTED None now = Inr (moved ?s2 USER_COMMITTED now)"
      using u by (simp add: update_state_moves)
    obtain d2 where "update_session d1 (moved ?s2 USER_COMMITTED now) = Inr d2"
      using update_session_twice [OF d1, of "moved ?s2 USER_COMMITTED now"] by auto
    then have "\<exists>r. try_user_message w s body m now = Inr r"
      using Inr d1 m2 by (simp add: try_user_message_def Let_def user_msg_def)
    then show ?thesis using assms by auto
  qed
qed

lemma get_or_create_cases:
  assumes "get_or_create w uid sid n now = Inr (wa, s)"
  shows "wa = w \<or> state s = IDLE \<and> id_session s \<in> dom (sessions (db wa))"
  using assms
  by (auto simp: get_or_create_def get_session_def create_session_def Let_def
      split: if_splits option.splits)

lemma handle_user_message_fails_unchanged:
  assumes "snd (handle_user_message w uid body sid n m now) = Inl e"
  shows "fst (handle_user_message w uid body sid n m now) = w"
proof (cases "get_or_create w uid sid n now")
  case (Inl e1)
  then show ?thesis by (simp add: handle_user_message_def)
next
  case (Inr p)
  obtain wa s where p: "p = (wa, s)" by (cases p)
  note g = get_or_create_cases [OF Inr [unfolded p]]
  show ?thesis
  proof (cases "state s \<in> set [IDLE, AI_COMMITTED]")
    case False
    then have "wa = w" using g by auto
    then show ?thesis using Inr p False by (simp add: handle_user_message_def)
  next
    case True
    show ?thesis
    proof (cases "try_user_message wa s body m now")
      case r: (Inr r)
      then show ?thesis using assms Inr p True
        by (cases r) (auto simp: handle_user_message_def)
    next
      case (Inl q)
      obtain e1 w1 s1 where q: "q = (e1, w1, s1)" by (cases q)
      note t = try_user_message_fails [OF Inl [unfolded q]]
      from t have w1: "w1 = wa" by simp
      from t consider (a) "s1 = s" "state s \<noteq> IDLE"
        | (b) "state s1 = USER_WRITING" "id_session s1 = id_session s"
              "id_session s \<notin> dom (sessions (db wa))" by blast
      then show ?thesis
      proof cases
        case a
        then have st: "state s = AI_COMMITTED" using True by simp
        then have "wa = w" using g by auto
        moreover have "update_state s1 ERROR (Some (str_error e1)) now =
            Inl (ValueError (invalid_transition_msg AI_COMMITTED ERROR))"
          using a st update_state_rejects [of ERROR s] by simp
        ultimately show ?thesis using Inr p True Inl q w1
          by (simp add: handle_user_message_def)
      next
        case b
        then have "wa = w" using g by auto
        have "ERROR \<in> set (VALID_TRANSITIONS (state s1))" using b(1) by simp
        from update_state_error [OF this]
        obtain s2 where s2: "update_state s1 ERROR (Some (str_error e1)) now = Inr s2"
          by blast
        have "id_session s2 \<notin> dom (sessions (db wa))"
          using update_state_id [OF s2] b by simp
        then have "\<exists>e2. update_session (db wa) s2 = Inl e2"
          by (simp add: update_session_def)
        then show ?thesis using Inr p True Inl q w1 s2 \<open>wa = w\<close>
          by (auto simp: handle_user_message_def)
      qed
    qed
  qed
qed

lemma example_generating_eq:
  "example_generating =
     (run init_world example_ops)\<lparr>db := stored (db (run init_world example_ops))
        (moved example_session AI_GENERATING 2)\<rparr>"
proof -
  have "start_ai_generation (run init_world example_ops) ''s1'' 2 =
      ((run init_world example_ops)\<lparr>db := stored (db (run init_world example_ops))
        (moved example_session AI_GENERATING 2)\<rparr>, Inr (moved example_session AI_GENERATING 2))"
    by (rule start_ai_generation_ok) (simp_all add: sessions_example, simp_all add: example_session_def)
  then show ?thesis by (simp add: example_generating_def run_snoc)
qed

lemma sessions_example_generating:
  "sessions (db example_generating) ''s1'' = Some (moved example_session AI_GENERATING 2)"
  by (simp add: example_generating_eq) (simp add: example_session_def)

lemma handle_user_message_gate:
  assumes "k \<noteq> []" "sessions (db w) k = Some s" "user_id s = uid"
    "state s \<notin> set [IDLE, AI_COMMITTED]"
  shows "handle_user_message w uid body (Some k) n m now =
           (w, Inl (ValueError (cannot_accept_msg (state s))))"
proof -
  have "get_or_create w uid (Some k) n now = Inr (w, s)"
    using assms by (simp add: get_or_create_def get_session_def)
  then show ?thesis using assms(4) by (simp add: handle_user_message_def)
qed

text \<open>
  C5, with the error text each rejection has. \<^verbatim>\<open>Session.update_state\<close> rejects every transition that is not in the
  table with an error that names the current state, the attempted target and the
  allowed targets, and gives no new session. Each operation of the state machine that
  fails leaves the store and the broker as they were. A message submitted to a session
  that is in a state other than \<open>IDLE\<close> and \<open>AI_COMMITTED\<close> (in \<open>AI_GENERATING\<close>,
  say) is rejected by the gate of \<^verbatim>\<open>handle_user_message\<close>, whose error names the
  current state and the two accepted states.
\<close>

theorem rejected_operations_change_nothing:
  "(new_state \<notin> set (VALID_TRANSITIONS (state s)) \<longrightarrow>
      update_state s new_state error_msg now =
        Inl (ValueError (invalid_transition_msg (state s) new_state)) \<and>
      names_transition (invalid_transition_msg (state s) new_state) (state s) new_state) \<and>
   (snd (handle_user_message w uid body sid n m now) = Inl e \<longrightarrow>
      fst (handle_user_message w uid body sid n m now) = w) \<and>
   (snd (start_ai_generation wa ka now) = Inl ea \<longrightarrow>
      fst (start_ai_generation wa ka now) = wa) \<and>
   (snd (commit_ai_message wb kb body m now) = Inl eb \<longrightarrow>
      fst (commit_ai_message wb kb body m now) = wb) \<and>
   (snd (mark_error wc kc etxt now) = Inl ec \<longrightarrow>
      fst (mark_error wc kc etxt now) = wc) \<and>
   (k \<noteq> [] \<and> sessions (db w) k = Some s' \<and> user_id s' = uid \<and>
    state s' \<notin> set [IDLE, AI_COMMITTED] \<longrightarrow>
      handle_user_message w uid body (Some k) n m now =
        (w, Inl (ValueError (cannot_accept_msg (state s')))) \<and>
      contains (cannot_accept_msg (state s')) (state_value (state s')))"
proof -
  have 1: "new_state \<notin> set (VALID_TRANSITIONS (state s)) \<longrightarrow>
      update_state s new_state error_msg now =
        Inl (ValueError (invalid_transition_msg (state s) new_state)) \<and>
      names_transition (invalid_transition_msg (state s) new_state) (state s) new_state"
    using update_state_rejects [of new_state s error_msg now]
      invalid_transition_msg_names [of "state s" new_state] by blast
  have 2: "snd (handle_user_message w uid body sid n m now) = Inl e \<longrightarrow>
      fst (handle_user_message w uid body sid n m now) = w"
    using handle_user_message_fails_unchanged by blast
  have 3: "snd (start_ai_generation wa ka now) = Inl ea \<longrightarrow>
      fst (start_ai_generation wa ka now) = wa"
    using start_ai_generation_fails_unchanged by blast
  have 4: "snd (commit_ai_message wb kb body m now) = Inl eb \<longrightarrow>
      fst (commit_ai_message wb kb body m now) = wb"
    using commit_ai_message_fails_unchanged by blast
  have 5: "snd (mark_error wc kc etxt now) = Inl ec \<longrightarrow>
      fst (mark_error wc kc etxt now) = wc"
    using mark_error_fails_unchanged by blast
  have 6: "k \<noteq> [] \<and> sessions (db w) k = Some s' \<and> user_id s' = uid \<and>
    state s' \<notin> set [IDLE, AI_COMMITTED] \<longrightarrow>
      handle_user_message w uid body (Some k) n m now =
        (w, Inl (ValueError (cannot_accept_msg (state s')))) \<and>
      contains (cannot_accept_msg (state s')) (state_value (state s'))"
    using handle_user_message_gate [of k w s' uid body n m now]
      cannot_accept_names_current [of "state s'"] by blast
  show ?thesis by (intro conjI 1 2 3 4 5 6)
qed

text \<open>
  A message submitted while the session generates: the call is rejected and changes
  nothing, but its error text names neither the target \<^verbatim>\<open>user_writing\<close> nor the
  allowed targets of \<^verbatim>\<open>ai_generating\<close>.
\<close>

theorem gate_error_names_no_target:
  "handle_user_message example_generating ''u'' ''again'' (Some ''s1'') ''s2'' ''m3'' 3 =
     (example_generating, Inl (ValueError (cannot_accept_msg AI_GENERATING))) \<and>
   \<not> contains (cannot_accept_msg AI_GENERATING) (state_value USER_WRITING) \<and>
   \<not> names_transition (cannot_accept_msg AI_GENERATING) AI_GENERATING USER_WRITING"
proof -
  have "handle_user_message example_generating ''u'' ''again'' (Some ''s1'') ''s2'' ''m3'' 3 =
     (example_generating,
      Inl (ValueError (cannot_accept_msg (state (moved example_session AI_GENERATING 2)))))"
    by (rule handle_user_message_gate [OF _ sessions_example_generating])
       (simp_all add: example_session_def)
  moreover have "\<not> contains (cannot_accept_msg AI_GENERATING) (state_value USER_WRITING)"
    by (simp add: cannot_accept_msg_def)
  ultimately show ?thesis by (simp add: names_transition_def)
qed

theorem rejected_operations_change_nothing_witness:
  "IDLE \<notin> set (VALID_TRANSITIONS (state example_session)) \<and>
   update_state example_session IDLE None 3 =
     Inl (ValueError (invalid_transition_msg (state example_session) IDLE)) \<and>
   names_transition (invalid_transition_msg (state example_session) IDLE)
     (state example_session) IDLE \<and>
   snd (handle_user_message example_generating ''u'' ''again'' (Some ''s1'') ''s2'' ''m3'' 3) =
     Inl (ValueError (cannot_accept_msg AI_GENERATING)) \<and>
   fst (handle_user_message example_generating ''u'' ''again'' (Some ''s1'') ''s2'' ''m3'' 3) =
     example_generating \<and>
   snd (start_ai_generation example_generating ''s1'' 3) =
     Inl (ValueError (start_gate_msg AI_GENERATING)) \<and>
   fst (start_ai_generation example_generating ''s1'' 3) = example_generating \<and>
   snd (commit_ai_message (run init_world example_ops) ''nobody'' ''again'' ''m3'' 3) =
     Inl (ValueError (not_found_msg ''nobody'')) \<and>
   fst (commit_ai_message (run init_world example_ops) ''nobody'' ''again'' ''m3'' 3) =
     run init_world example_ops \<and>
   snd (mark_error example_idle ''s1'' ''boom'' 3) =
     Inl (ValueError (invalid_transition_msg IDLE ERROR)) \<and>
   fst (mark_error example_idle ''s1'' ''boom'' 3) = example_idle \<and>
   sessions (db example_generating) ''s1'' = Some (moved example_session AI_GENERATING 2) \<and>
   user_id (moved example_session AI_GENERATING 2) = ''u'' \<and>
   state (moved example_session AI_GENERATING 2) \<notin> set [IDLE, AI_COMMITTED] \<and>
   contains (cannot_accept_msg AI_GENERATING) (state_value AI_GENERATING)"
proof -
  let ?g = "moved example_session AI_GENERATING 2"
  have st: "state example_session = USER_COMMITTED" "user_id ?g = ''u''" "state ?g = AI_GENERATING"
    by (simp_all add: example_session_def)
  have h1: "IDLE \<notin> set (VALID_TRANSITIONS (state example_session))" by (simp add: st)
  have g: "sessions (db example_generating) ''s1'' = Some ?g"
    by (rule sessions_example_generating)
  have gate: "state ?g \<notin> set [IDLE, AI_COMMITTED]" by (simp add: st)
  have h2: "snd (handle_user_message example_generating ''u'' ''again'' (Some ''s1'') ''s2''
      ''m3'' 3) = Inl (ValueError (cannot_accept_msg AI_GENERATING))"
    using handle_user_message_gate [OF _ g st(2) gate, of "''again''" "''s2''" "''m3''" 3]
    by (simp add: st)
  have h3: "snd (start_ai_generation example_generating ''s1'' 3) =
     Inl (ValueError (start_gate_msg AI_GENERATING))"
    using start_ai_generation_gate [OF g, of 3] by (simp add: st start_gate_msg_def)
  have h4: "snd (commit_ai_message (run init_world example_ops) ''nobody'' ''again'' ''m3'' 3) =
     Inl (ValueError (not_found_msg ''nobody''))"
    by (simp add: commit_ai_message_missing sessions_example)
  have h5: "snd (mark_error example_idle ''s1'' ''boom'' 3) =
     Inl (ValueError (invalid_transition_msg IDLE ERROR))"
    using mark_error_rejected [OF sessions_example_idle, of "''boom''" 3] by simp
  have h6: "''s1'' \<noteq> [] \<and> sessions (db example_generating) ''s1'' = Some ?g \<and>
      user_id ?g = ''u'' \<and> state ?g \<notin> set [IDLE, AI_COMMITTED]"
    using g st(2) gate by simp
  note t = rejected_operations_change_nothing [of IDLE example_session None 3
      example_generating "''u''" "''again''" "Some ''s1''" "''s2''" "''m3''"
      "ValueError (cannot_accept_msg AI_GENERATING)"
      example_generating "''s1''" "ValueError (start_gate_msg AI_GENERATING)"
      "run init_world example_ops" "''nobody''" "ValueError (not_found_msg ''nobody'')"
      example_idle "''s1''" "''boom''" "ValueError (invalid_transition_msg IDLE ERROR)"
      "''s1''" ?g]
  have c1: "update_state example_session IDLE None 3 =
      Inl (ValueError (invalid_transition_msg (state example_session) IDLE))"
    and c1': "names_transition (invalid_transition_msg (state example_session) IDLE)
      (state example_session) IDLE"
    using t h1 by blast+
  have c2: "fst (handle_user_message example_generating ''u'' ''again'' (Some ''s1'') ''s2''
      ''m3'' 3) = example_generating"
    using t h2 by blast
  have c3: "fst (start_ai_generation example_generating ''s1'' 3) = example_generating"
    using t h3 by blast
  have c4: "fst (commit_ai_message (run init_world example_ops) ''nobody'' ''again'' ''m3'' 3) =
      run init_world example_ops"
    using t h4 by blast
  have c5: "fst (mark_error example_idle ''s1'' ''boom'' 3) = example_idle"
    using t h5 by blast
  have "contains (cannot_accept_msg (state ?g)) (state_value (state ?g))"
    using t h6 by blast
  then have c6: "contains (cannot_accept_msg AI_GENERATING) (state_value AI_GENERATING)"
    by (simp only: st(3))
  show ?thesis by (intro conjI h1 c1 c1' h2 c2 h3 c3 h4 c4 h5 c5 g st(2) gate c6)
qed








end
